theory Spec2Isabelle
  imports Main "HOL-Library.Multiset"
begin

section \<open>Data model\<close>

text \<open>
  A file handle is the file's name, as \<open>os.listdir\<close> returns it. The content of a file
  is a list of bytes. The tables of \<open>al.py\<close> are \<open>defaultdict(list)\<close> values: a Python
  dictionary keeps its keys in insertion order, so a table is an association list from a
  key to the list of files appended under it.
\<close>

type_synonym handle = string
type_synonym bytes = string
type_synonym 'k table = "('k \<times> handle list) list"

text \<open>
  The source table is keyed by the file size (an int, filled in by \<open>main\<close>) before the
  first pass and by a hexadecimal digest (a str) after a rehash. An int never equals a
  str in Python, so the two kinds of key are kept apart.
\<close>

datatype key = Size int | Digest string

text \<open>
  The exceptions that the modelled functions can raise. \<open>OSError\<close> is what \<open>open\<close> and
  \<open>read\<close> raise; \<open>Exception\<close> carries the message of a \<open>raise Exception(...)\<close>;
  \<open>IndexError\<close> is what \<open>list_of_files[0]\<close> raises on an empty list.
\<close>

datatype error = OSError | Exception string | IndexError

datatype outcome = Returned | Raised error

text \<open>
  The disk: \<open>open(file, 'rb')\<close> either raises \<open>OSError\<close> (\<open>None\<close>) or gives a file
  object, whose \<open>read\<close> either raises \<open>OSError\<close> (\<open>Unreadable\<close>) or gives the bytes
  of the file.
\<close>

datatype file_object = Unreadable | Readable bytes

type_synonym disk = "handle \<Rightarrow> file_object option"

text \<open>
  What a run does besides filling tables is recorded in a trace: every entry into
  \<open>find_duplicate_files\<close> with the iteration and the two tables it receives, and every
  call of \<open>get_hash\<close> with the file and the iteration. No result depends on the trace.
\<close>

datatype event = Call int "key table" "string table" | GetHash handle int

record state =
  source_table :: "key table"
  destination_table :: "string table"
  trace :: "event list"

section \<open>Tables\<close>

text \<open>
  \<open>table[k].extend(files)\<close> on a \<open>defaultdict(list)\<close>: the list under an existing key
  grows in place; a missing key is inserted last. \<open>table[k].append(file)\<close> is the case
  of a one-element list.
\<close>

fun extend_at :: "'k \<Rightarrow> handle list \<Rightarrow> 'k table \<Rightarrow> 'k table" where
  "extend_at k files [] = [(k, files)]"
| "extend_at k files ((k', old) # rest) =
     (if k = k' then (k', old @ files) # rest else (k', old) # extend_at k files rest)"

definition append_at :: "'k \<Rightarrow> handle \<Rightarrow> 'k table \<Rightarrow> 'k table" where
  "append_at k file tbl = extend_at k [file] tbl"

text \<open>The list stored under a key (empty when the key is missing), and all handles of a table.\<close>

definition bucket :: "'k \<Rightarrow> 'k table \<Rightarrow> handle list" where
  "bucket k tbl = (case map_of tbl k of None \<Rightarrow> [] | Some files \<Rightarrow> files)"

definition handles :: "'k table \<Rightarrow> handle list" where
  "handles tbl = concat (map snd tbl)"

section \<open>Extension labels\<close>

definition byte_chunk :: nat where
  "byte_chunk = 1024"

text \<open>
  \<open>str.rfind\<close> for a single character: the highest index of the character, or \<open>-1\<close>.
\<close>

definition rfind :: "string \<Rightarrow> char \<Rightarrow> int" where
  "rfind p c =
     (if c \<in> set p then int (length p) - 1 - int (length (takeWhile (\<lambda>x. x \<noteq> c) (rev p)))
      else - 1)"

text \<open>
  \<open>os.path.splitext\<close> of \<open>posixpath\<close>: the extension starts at the last dot, when that
  dot comes after the last slash and some character between the slash and the dot is not
  a dot (leading dots of the base name do not start an extension).
  \<open>skip_leading_dots\<close> is the \<open>while\<close> loop of the library function.
\<close>

function skip_leading_dots :: "string \<Rightarrow> nat \<Rightarrow> nat \<Rightarrow> bool" where
  "skip_leading_dots p filenameIndex dotIndex =
     (if filenameIndex < dotIndex
      then (if p ! filenameIndex \<noteq> CHR ''.'' then True
            else skip_leading_dots p (filenameIndex + 1) dotIndex)
      else False)"
  by pat_completeness auto
termination
  by (relation "measure (\<lambda>(p, i, d). d - i)") auto

declare skip_leading_dots.simps [simp del]

definition splitext :: "string \<Rightarrow> string \<times> string" where
  "splitext p =
     (let sepIndex = rfind p CHR ''/'';
          dotIndex = rfind p CHR ''.''
      in if dotIndex > sepIndex \<and> skip_leading_dots p (nat (sepIndex + 1)) (nat dotIndex)
         then (take (nat dotIndex) p, drop (nat dotIndex) p)
         else (p, []))"

definition extension_label :: "handle \<Rightarrow> string" where
  "extension_label file =
     (let file_extension = snd (splitext file)
      in if file_extension \<noteq> [] then drop 1 file_extension @ ''-files''
         else ''no-extension-files'')"

definition add_unique_file_to_table :: "handle \<Rightarrow> string table \<Rightarrow> string table" where
  "add_unique_file_to_table file dest =
     append_at (extension_label file) file dest"

section \<open>Hashing\<close>

text \<open>
  \<open>sha256\<close> stands for \<open>hashlib.sha256(...).hexdigest()\<close>, a function from bytes to a
  hexadecimal string; it is a parameter of the model.
\<close>

definition get_hash :: "(bytes \<Rightarrow> string) \<Rightarrow> file_object \<Rightarrow> int \<Rightarrow> error + string" where
  "get_hash sha256 file_object iteration =
     (if iteration = 0 then
        (case file_object of
           Unreadable \<Rightarrow> Inl OSError
         | Readable content \<Rightarrow> Inr (sha256 (take byte_chunk content)))
      else if iteration = 1 then
        (case file_object of
           Unreadable \<Rightarrow> Inl OSError
         | Readable content \<Rightarrow> Inr (sha256 content))
      else Inl (Exception ''Error encountered in get_hash()''))"

text \<open>
  \<open>rehash_and_add_to_table\<close>: the table it fills is mutated in place, so the table as
  it stands is part of the result also when an exception leaves the loop. An \<open>OSError\<close>
  of \<open>open\<close> or of \<open>read\<close> is replaced by \<open>Exception("Unable to read current file")\<close>;
  any other exception of \<open>get_hash\<close> passes through the \<open>except OSError\<close> clause.
\<close>

fun rehash_and_add_to_table ::
  "disk \<Rightarrow> (bytes \<Rightarrow> string) \<Rightarrow> handle list \<Rightarrow> key table \<times> event list \<Rightarrow> int
     \<Rightarrow> outcome \<times> key table \<times> event list" where
  "rehash_and_add_to_table disk sha256 [] (dest, tr) iteration =
     (Returned, dest, tr)"
| "rehash_and_add_to_table disk sha256 (file # list_of_files) (dest, tr) iteration =
     (case disk file of
        None \<Rightarrow> (Raised (Exception ''Unable to read current file''), dest, tr)
      | Some file_object \<Rightarrow>
          (case get_hash sha256 file_object iteration of
             Inl e \<Rightarrow>
               (Raised (if e = OSError then Exception ''Unable to read current file'' else e),
                dest, tr @ [GetHash file iteration])
           | Inr current_hash \<Rightarrow>
               rehash_and_add_to_table disk sha256 list_of_files
                 (append_at (Digest current_hash) file dest,
                  tr @ [GetHash file iteration])
                 iteration))"

section \<open>The resolver\<close>

text \<open>
  The loop of the terminal branch (\<open>iteration == 2\<close>): the first member of every group is
  added as a unique file, the others go under \<open>"duplicate-files"\<close>.
\<close>

fun add_duplicates :: "handle list \<Rightarrow> string table \<Rightarrow> string table" where
  "add_duplicates [] dest = dest"
| "add_duplicates (file # files) dest =
     add_duplicates files (append_at ''duplicate-files'' file dest)"

fun classify_groups :: "key table \<Rightarrow> string table \<Rightarrow> outcome \<times> string table" where
  "classify_groups [] dest = (Returned, dest)"
| "classify_groups ((k, list_of_files) # rest) dest =
     (case list_of_files of
        [] \<Rightarrow> (Raised IndexError, dest)
      | first # others \<Rightarrow>
          classify_groups rest
            (add_duplicates others (add_unique_file_to_table first dest)))"

text \<open>
  The first loop of the other branch: a group of one file is added as unique, any other
  group is copied into \<open>potentially_duplicate_files\<close>.
\<close>

fun classify_singletons ::
  "key table \<Rightarrow> string table \<Rightarrow> key table \<Rightarrow> string table \<times> key table" where
  "classify_singletons [] dest potentially_duplicate_files =
     (dest, potentially_duplicate_files)"
| "classify_singletons ((k, files) # rest) dest potentially_duplicate_files =
     (if length files = 1
      then classify_singletons rest (add_unique_file_to_table (hd files) dest)
             potentially_duplicate_files
      else classify_singletons rest dest
             (extend_at k files potentially_duplicate_files))"

text \<open>The second loop: every group of \<open>potentially_duplicate_files\<close> is rehashed into the source table.\<close>

fun rehash_groups ::
  "disk \<Rightarrow> (bytes \<Rightarrow> string) \<Rightarrow> key table \<Rightarrow> state \<Rightarrow> int \<Rightarrow> outcome \<times> state" where
  "rehash_groups disk sha256 [] st iteration = (Returned, st)"
| "rehash_groups disk sha256 ((k, list_of_files) # rest) st iteration =
     (case rehash_and_add_to_table disk sha256 list_of_files (source_table st, trace st) iteration of
        (Raised e, tbl, tr) \<Rightarrow> (Raised e, st\<lparr>source_table := tbl, trace := tr\<rparr>)
      | (Returned, tbl, tr) \<Rightarrow>
          rehash_groups disk sha256 rest (st\<lparr>source_table := tbl, trace := tr\<rparr>) iteration)"

text \<open>
  A rehash with an iteration other than 0 or 1 returns only when there was no file to
  hash, and then it leaves the table as it was. This is what bounds the recursion of
  \<open>find_duplicate_files\<close> when it is entered with such an iteration.
\<close>

lemma rehash_and_add_to_table_other_iteration:
  "iteration \<noteq> 0 \<Longrightarrow> iteration \<noteq> 1 \<Longrightarrow>
   rehash_and_add_to_table disk sha256 files (tbl, tr) iteration = (Returned, tbl', tr') \<Longrightarrow>
   tbl' = tbl"
  by (cases files) (auto simp: get_hash_def split: option.splits)

lemma rehash_groups_other_iteration:
  "iteration \<noteq> 0 \<Longrightarrow> iteration \<noteq> 1 \<Longrightarrow>
   rehash_groups disk sha256 pot st iteration = (Returned, st') \<Longrightarrow>
   source_table st' = source_table st"
proof (induction pot arbitrary: st)
  case Nil
  then show ?case by simp
next
  case (Cons g pot)
  obtain k files where g: "g = (k, files)" by (cases g)
  obtain out tbl tr where r:
    "rehash_and_add_to_table disk sha256 files (source_table st, trace st) iteration = (out, tbl, tr)"
    by (metis prod_cases3)
  show ?case
  proof (cases out)
    case Returned
    with Cons.prems r g have
      "rehash_groups disk sha256 pot (st\<lparr>source_table := tbl, trace := tr\<rparr>) iteration = (Returned, st')"
      by simp
    from Cons.IH [OF Cons.prems(1) Cons.prems(2) this] have "source_table st' = tbl" by simp
    moreover from rehash_and_add_to_table_other_iteration [OF Cons.prems(1) Cons.prems(2)] r Returned
    have "tbl = source_table st" by blast
    ultimately show ?thesis by simp
  next
    case (Raised e)
    with Cons.prems r g show ?thesis by simp
  qed
qed

lemma classify_singletons_Nil:
  "classify_singletons [] dest [] = (dest', pot) \<Longrightarrow> pot = []"
  by simp

text \<open>
  \<open>find_duplicate_files\<close>. Both tables are mutated in place, so the state as it stands
  is returned also when an exception propagates.
\<close>

function find_duplicate_files ::
  "disk \<Rightarrow> (bytes \<Rightarrow> string) \<Rightarrow> state \<Rightarrow> int \<Rightarrow> outcome \<times> state" where
  "find_duplicate_files disk sha256 st0 iteration =
     (let st = st0\<lparr>trace := trace st0 @ [Call iteration (source_table st0) (destination_table st0)]\<rparr>
      in if iteration = 2 then
           (case classify_groups (source_table st) (destination_table st) of
              (out, dest) \<Rightarrow> (out, st\<lparr>destination_table := dest\<rparr>))
         else
           (case classify_singletons (source_table st) (destination_table st) [] of
              (dest, potentially_duplicate_files) \<Rightarrow>
                if potentially_duplicate_files = [] then (Returned, st\<lparr>destination_table := dest\<rparr>)
                else
                  (case rehash_groups disk sha256 potentially_duplicate_files
                          (st\<lparr>source_table := [], destination_table := dest\<rparr>) iteration of
                     (Raised e, st') \<Rightarrow> (Raised e, st')
                   | (Returned, st') \<Rightarrow> find_duplicate_files disk sha256 st' (iteration + 1))))"
  by pat_completeness auto

termination
proof (relation "measure (\<lambda>(disk, sha256, st, iteration).
           if source_table st = [] then 0 else if iteration = 0 then 3 else if iteration = 1 then 2 else (1::nat))",
       goal_cases)
  case 1
  show ?case by simp
next
  case (2 disk sha256 st0 iteration st dest pot out st')
  from 2(3) 2(4) 2(1) have src: "source_table st0 \<noteq> []"
    using classify_singletons_Nil [of "destination_table st" dest pot] by auto
  from 2(5) 2(6) have "rehash_groups disk sha256 pot (st\<lparr>source_table := [], destination_table := dest\<rparr>) iteration
      = (Returned, st')"
    by simp
  then have other: "iteration \<noteq> 0 \<Longrightarrow> iteration \<noteq> 1 \<Longrightarrow> source_table st' = []"
    using rehash_groups_other_iteration by fastforce
  show ?case
    using src 2(2) other by auto
qed

declare find_duplicate_files.simps [simp del]

section \<open>Observations on a run\<close>

text \<open>
  The iterations of the calls of \<open>find_duplicate_files\<close> in a trace, the calls of
  \<open>get_hash\<close> in it, and what the destination table already held at each entry into
  \<open>find_duplicate_files\<close>.
\<close>

fun calls :: "event list \<Rightarrow> int list" where
  "calls [] = []"
| "calls (Call iteration src dest # evs) = iteration # calls evs"
| "calls (GetHash file iteration # evs) = calls evs"

fun hashed :: "event list \<Rightarrow> (handle \<times> int) list" where
  "hashed [] = []"
| "hashed (Call iteration src dest # evs) = hashed evs"
| "hashed (GetHash file iteration # evs) = (file, iteration) # hashed evs"

fun classified_before :: "event list \<Rightarrow> (int \<times> handle list) list" where
  "classified_before [] = []"
| "classified_before (Call iteration src dest # evs) =
     (iteration, handles dest) # classified_before evs"
| "classified_before (GetHash file iteration # evs) = classified_before evs"

text \<open>
  The state with the entry into \<open>find_duplicate_files\<close> recorded, and the key under
  which a rehash files a handle (none when the file cannot be hashed).
\<close>

definition entered :: "state \<Rightarrow> int \<Rightarrow> state" where
  "entered st iteration =
     st\<lparr>trace := trace st @ [Call iteration (source_table st) (destination_table st)]\<rparr>"

definition file_key :: "disk \<Rightarrow> (bytes \<Rightarrow> string) \<Rightarrow> int \<Rightarrow> handle \<Rightarrow> key option" where
  "file_key disk sha256 iteration file =
     (case disk file of
        None \<Rightarrow> None
      | Some file_object \<Rightarrow>
          (case get_hash sha256 file_object iteration of
             Inl e \<Rightarrow> None
           | Inr h \<Rightarrow> Some (Digest h)))"

text \<open>
  The handles of a table that stand alone in their group, and those that stand in a group
  of another length: the first loop of \<open>find_duplicate_files\<close> classifies the former
  and passes the latter on to the rehash.
\<close>

definition singletons :: "'k table \<Rightarrow> handle list" where
  "singletons tbl = concat (map snd (filter (\<lambda>g. length (snd g) = 1) tbl))"

definition ambiguous :: "'k table \<Rightarrow> handle list" where
  "ambiguous tbl = concat (map snd (filter (\<lambda>g. length (snd g) \<noteq> 1) tbl))"

text \<open>
  The files with a given content among the files that stand in groups of several files, in
  the order of the table.
\<close>

definition same_content :: "disk \<Rightarrow> bytes \<Rightarrow> 'k table \<Rightarrow> handle list" where
  "same_content disk content tbl =
     filter (\<lambda>f. disk f = Some (Readable content)) (ambiguous tbl)"

text \<open>
  What the terminal step is to add to the bucket of a label, in the words of the
  specification: for each group in turn, its first member when the label is that of the
  member's extension, and its other members when the label is \<open>duplicate-files\<close>.
\<close>

definition terminal_additions :: "string \<Rightarrow> 'k table \<Rightarrow> handle list" where
  "terminal_additions label tbl =
     concat (map (\<lambda>g. filter (\<lambda>f. extension_label f = label) (take 1 (snd g)) @
                       (if label = ''duplicate-files'' then drop 1 (snd g) else [])) tbl)"

section \<open>Concrete directories\<close>

text \<open>
  The directory of the specification's scenario: \<open>a.txt\<close> and \<open>b.txt\<close> with content
  \<open>X\<close>, \<open>c.txt\<close> with content \<open>Y\<close>, \<open>d.log\<close> with content \<open>Z\<close>, and the size
  table that \<open>main\<close> builds for it when the first three files have 10 bytes and the
  last has 20.
\<close>

definition scenario_disk :: "bytes \<Rightarrow> bytes \<Rightarrow> bytes \<Rightarrow> disk" where
  "scenario_disk X Y Z =
     map_of [(''a.txt'', Readable X), (''b.txt'', Readable X), (''c.txt'', Readable Y),
             (''d.log'', Readable Z)]"

definition scenario_state :: state where
  "scenario_state =
     \<lparr>source_table = [(Size 10, [''a.txt'', ''b.txt'', ''c.txt'']), (Size 20, [''d.log''])],
      destination_table = [], trace = []\<rparr>"

text \<open>
  The size tables of the scenario in which \<open>a.txt\<close> comes before \<open>b.txt\<close>: the
  directory listing fixes neither the order of the sizes nor the place of \<open>c.txt\<close>.
\<close>

definition scenario_tables :: "key table list" where
  "scenario_tables =
     [[(Size 10, [''a.txt'', ''b.txt'', ''c.txt'']), (Size 20, [''d.log''])],
      [(Size 10, [''a.txt'', ''c.txt'', ''b.txt'']), (Size 20, [''d.log''])],
      [(Size 10, [''c.txt'', ''a.txt'', ''b.txt'']), (Size 20, [''d.log''])],
      [(Size 20, [''d.log'']), (Size 10, [''a.txt'', ''b.txt'', ''c.txt''])],
      [(Size 20, [''d.log'']), (Size 10, [''a.txt'', ''c.txt'', ''b.txt''])],
      [(Size 20, [''d.log'']), (Size 10, [''c.txt'', ''a.txt'', ''b.txt''])]]"

text \<open>What the specification expects of the scenario, on the final state.\<close>

definition scenario_expected :: "state \<Rightarrow> bool" where
  "scenario_expected st =
     (set (bucket ''txt-files'' (destination_table st)) = {''a.txt'', ''c.txt''} \<and>
      bucket ''log-files'' (destination_table st) = [''d.log''] \<and>
      bucket ''duplicate-files'' (destination_table st) = [''b.txt''] \<and>
      set (map fst (destination_table st)) = {''txt-files'', ''log-files'', ''duplicate-files''} \<and>
      length (handles (destination_table st)) = 4 \<and>
      set (hashed (trace st)) =
        {(''a.txt'', 0), (''b.txt'', 0), (''c.txt'', 0), (''a.txt'', 1), (''b.txt'', 1)} \<and>
      classified_before (trace st) = [(0, []), (1, [''d.log'']), (2, [''d.log'', ''c.txt''])])"

text \<open>
  The final state of the run on \<open>scenario_state\<close> when the contents are
  \<open>0123456789\<close>, \<open>9876543210\<close> and \<open>01234567890123456789\<close> and the digest of a content
  is the content itself.
\<close>

definition scenario_final :: state where
  "scenario_final =
     \<lparr>source_table = [(Digest ''0123456789'', [''a.txt'', ''b.txt''])],
      destination_table =
        [(''log-files'', [''d.log'']), (''txt-files'', [''c.txt'', ''a.txt'']),
         (''duplicate-files'', [''b.txt''])],
      trace =
        [Call 0 [(Size 10, [''a.txt'', ''b.txt'', ''c.txt'']), (Size 20, [''d.log''])] [],
         GetHash ''a.txt'' 0, GetHash ''b.txt'' 0, GetHash ''c.txt'' 0,
         Call 1 [(Digest ''0123456789'', [''a.txt'', ''b.txt'']), (Digest ''9876543210'', [''c.txt''])]
           [(''log-files'', [''d.log''])],
         GetHash ''a.txt'' 1, GetHash ''b.txt'' 1,
         Call 2 [(Digest ''0123456789'', [''a.txt'', ''b.txt''])]
           [(''log-files'', [''d.log'']), (''txt-files'', [''c.txt''])]]\<rparr>"

text \<open>The disk of the scenario on which \<open>b.txt\<close> cannot be opened.\<close>

definition broken_disk :: disk where
  "broken_disk =
     map_of [(''a.txt'', Readable ''0123456789''), (''c.txt'', Readable ''9876543210''),
             (''d.log'', Readable ''01234567890123456789'')]"

text \<open>
  A directory in which files of two sizes share their first 1024 bytes: two files of 1025
  bytes with one content and two files of 1026 bytes with another.
\<close>

definition pooled_a :: bytes where
  "pooled_a = replicate 1024 (CHR ''x'') @ ''a''"

definition pooled_b :: bytes where
  "pooled_b = replicate 1024 (CHR ''x'') @ ''bb''"

definition pooled_disk :: disk where
  "pooled_disk =
     map_of [(''a.bin'', Readable pooled_a), (''a2.bin'', Readable pooled_a),
             (''b.bin'', Readable pooled_b), (''b2.bin'', Readable pooled_b)]"

definition pooled_state :: state where
  "pooled_state =
     \<lparr>source_table = [(Size 1025, [''a.bin'', ''a2.bin'']), (Size 1026, [''b.bin'', ''b2.bin''])],
      destination_table = [], trace = []\<rparr>"

section \<open>Tables: basic facts\<close>

lemma handles_Nil [simp]: "handles [] = []"
  by (simp add: handles_def)

lemma handles_Cons [simp]: "handles ((k, files) # tbl) = files @ handles tbl"
  by (simp add: handles_def)

lemma bucket_extend_at:
  "bucket k' (extend_at k files tbl) = (if k' = k then bucket k tbl @ files else bucket k' tbl)"
  by (induction tbl) (auto simp: bucket_def)

lemma bucket_append_at:
  "bucket k' (append_at k file tbl) = (if k' = k then bucket k tbl @ [file] else bucket k' tbl)"
  by (simp add: append_at_def bucket_extend_at)

lemma mset_handles_extend_at:
  "mset (handles (extend_at k files tbl)) = mset (handles tbl) + mset files"
  by (induction tbl) auto

lemma mset_handles_append_at:
  "mset (handles (append_at k file tbl)) = mset (handles tbl) + {#file#}"
  by (simp add: append_at_def mset_handles_extend_at)

lemma mset_handles_add_unique:
  "mset (handles (add_unique_file_to_table file dest)) = mset (handles dest) + {#file#}"
  by (simp add: add_unique_file_to_table_def mset_handles_append_at)

lemma mset_handles_add_duplicates:
  "mset (handles (add_duplicates files dest)) = mset (handles dest) + mset files"
  by (induction files arbitrary: dest) (auto simp: mset_handles_append_at)

lemma mset_handles_classify_groups:
  "classify_groups src dest = (Returned, dest') \<Longrightarrow>
   mset (handles dest') = mset (handles dest) + mset (handles src)"
proof (induction src arbitrary: dest)
  case Nil
  then show ?case by simp
next
  case (Cons g src)
  obtain k files where g: "g = (k, files)" by (cases g)
  show ?case
  proof (cases files)
    case Nil
    with Cons.prems g show ?thesis by simp
  next
    case (Cons first others)
    with Cons.prems g have
      "classify_groups src (add_duplicates others (add_unique_file_to_table first dest)) = (Returned, dest')"
      by simp
    from Cons.IH [OF this] show ?thesis
      using g Cons by (simp add: mset_handles_add_duplicates mset_handles_add_unique)
  qed
qed

lemma mset_handles_classify_singletons:
  "classify_singletons src dest pot = (dest', pot') \<Longrightarrow>
   mset (handles dest') + mset (handles pot') =
   mset (handles dest) + mset (handles pot) + mset (handles src)"
proof (induction src arbitrary: dest pot)
  case Nil
  then show ?case by simp
next
  case (Cons g src)
  obtain k files where g: "g = (k, files)" by (cases g)
  show ?case
  proof (cases "length files = 1")
    case True
    then obtain f where f: "files = [f]" by (cases files) auto
    with Cons.prems g have
      "classify_singletons src (add_unique_file_to_table f dest) pot = (dest', pot')"
      by simp
    from Cons.IH [OF this] show ?thesis
      using g f by (simp add: mset_handles_add_unique)
  next
    case False
    with Cons.prems g have
      "classify_singletons src dest (extend_at k files pot) = (dest', pot')"
      by simp
    from Cons.IH [OF this] show ?thesis
      using g by (simp add: mset_handles_extend_at)
  qed
qed

lemma mset_handles_rehash_and_add_to_table:
  "rehash_and_add_to_table disk sha256 files (tbl, tr) iteration = (Returned, tbl', tr') \<Longrightarrow>
   mset (handles tbl') = mset (handles tbl) + mset files"
proof (induction files arbitrary: tbl tr)
  case Nil
  then show ?case by simp
next
  case (Cons f files)
  from Cons.prems obtain fo h where
    "disk f = Some fo" "get_hash sha256 fo iteration = Inr h"
    "rehash_and_add_to_table disk sha256 files
       (append_at (Digest h) f tbl, tr @ [GetHash f iteration]) iteration = (Returned, tbl', tr')"
    by (auto split: option.splits sum.splits)
  from Cons.IH [OF this(3)] show ?case
    by (simp add: mset_handles_append_at)
qed

lemma rehash_groups_Cons_Returned:
  assumes "rehash_groups disk sha256 ((k, files) # pot) st iteration = (Returned, st')"
  obtains tbl tr where
    "rehash_and_add_to_table disk sha256 files (source_table st, trace st) iteration = (Returned, tbl, tr)"
    "rehash_groups disk sha256 pot (st\<lparr>source_table := tbl, trace := tr\<rparr>) iteration = (Returned, st')"
  using assms by (auto split: prod.splits outcome.splits)

lemma mset_handles_rehash_groups:
  "rehash_groups disk sha256 pot st iteration = (Returned, st') \<Longrightarrow>
   mset (handles (source_table st')) = mset (handles (source_table st)) + mset (handles pot)"
proof (induction pot arbitrary: st)
  case Nil
  then show ?case by simp
next
  case (Cons g pot)
  obtain k files where g: "g = (k, files)" by (cases g)
  from Cons.prems [unfolded g] obtain tbl tr where
    r: "rehash_and_add_to_table disk sha256 files (source_table st, trace st) iteration = (Returned, tbl, tr)"
    and rest: "rehash_groups disk sha256 pot (st\<lparr>source_table := tbl, trace := tr\<rparr>) iteration = (Returned, st')"
    by (rule rehash_groups_Cons_Returned)
  from Cons.IH [OF rest] mset_handles_rehash_and_add_to_table [OF r] show ?case
    using g by simp
qed

lemma destination_table_rehash_groups:
  "rehash_groups disk sha256 pot st iteration = (out, st') \<Longrightarrow>
   destination_table st' = destination_table st"
proof (induction pot arbitrary: st)
  case Nil
  then show ?case by simp
next
  case (Cons g pot)
  obtain k files where g: "g = (k, files)" by (cases g)
  obtain o1 tbl tr where r:
    "rehash_and_add_to_table disk sha256 files (source_table st, trace st) iteration = (o1, tbl, tr)"
    by (metis prod_cases3)
  show ?case
  proof (cases o1)
    case Returned
    with Cons.prems r g have
      "rehash_groups disk sha256 pot (st\<lparr>source_table := tbl, trace := tr\<rparr>) iteration = (out, st')"
      by simp
    from Cons.IH [OF this] show ?thesis by simp
  next
    case (Raised e)
    with Cons.prems r g show ?thesis by auto
  qed
qed

lemma mset_handles_find_duplicate_files:
  "find_duplicate_files disk sha256 st iteration = (Returned, st') \<Longrightarrow>
   mset (handles (destination_table st')) =
   mset (handles (destination_table st)) + mset (handles (source_table st))"
proof (induction disk sha256 st iteration rule: find_duplicate_files.induct)
  case (1 disk sha256 st0 iteration)
  define st where "st = st0\<lparr>trace := trace st0 @ [Call iteration (source_table st0) (destination_table st0)]\<rparr>"
  show ?case
  proof (cases "iteration = 2")
    case True
    with "1.prems" show ?thesis
      by (auto simp: find_duplicate_files.simps [of _ _ st0] Let_def
          split: prod.splits dest: mset_handles_classify_groups)
  next
    case False
    obtain dest pot where cs:
      "classify_singletons (source_table st) (destination_table st) [] = (dest, pot)"
      by (cases "classify_singletons (source_table st) (destination_table st) []")
    from mset_handles_classify_singletons [OF cs] have inv:
      "mset (handles dest) + mset (handles pot) =
       mset (handles (destination_table st0)) + mset (handles (source_table st0))"
      by (simp add: st_def)
    show ?thesis
    proof (cases "pot = []")
      case True
      with "1.prems" False cs inv show ?thesis
        by (auto simp: find_duplicate_files.simps [of _ _ st0] Let_def st_def [symmetric])
    next
      case nonempty: False
      from "1.prems" False cs nonempty obtain st1 where
        rg: "rehash_groups disk sha256 pot (st\<lparr>source_table := [], destination_table := dest\<rparr>) iteration
             = (Returned, st1)"
        and rec: "find_duplicate_files disk sha256 st1 (iteration + 1) = (Returned, st')"
        by (auto simp: find_duplicate_files.simps [of _ _ st0] Let_def st_def [symmetric]
            split: prod.splits outcome.splits)
      from "1.IH" [OF st_def False cs [symmetric] nonempty rg [symmetric] refl rec]
      have "mset (handles (destination_table st')) =
            mset (handles (destination_table st1)) + mset (handles (source_table st1))" .
      also have "destination_table st1 = dest"
        using destination_table_rehash_groups [OF rg] by simp
      also have "mset (handles (source_table st1)) = mset (handles pot)"
        using mset_handles_rehash_groups [OF rg] by simp
      finally show ?thesis using inv by simp
    qed
  qed
qed

section \<open>Evaluating a run\<close>

lemmas run_simps =
  find_duplicate_files.simps Let_def append_at_def add_unique_file_to_table_def
  extension_label_def splitext_def rfind_def skip_leading_dots.simps get_hash_def byte_chunk_def

lemma scenario_run:
  "find_duplicate_files (scenario_disk ''0123456789'' ''9876543210'' ''01234567890123456789'') id
     scenario_state 0 = (Returned, scenario_final)"
  by (simp add: run_simps scenario_disk_def scenario_state_def scenario_final_def)

section \<open>The levels of a run\<close>

lemma calls_append [simp]: "calls (xs @ ys) = calls xs @ calls ys"
  by (induction xs rule: calls.induct) auto

lemma hashed_append [simp]: "hashed (xs @ ys) = hashed xs @ hashed ys"
  by (induction xs rule: hashed.induct) auto

lemma calls_GetHash [simp]: "calls (map (\<lambda>f. GetHash f iteration) files) = []"
  by (induction files) auto

lemma hashed_GetHash [simp]:
  "hashed (map (\<lambda>f. GetHash f iteration) files) = map (\<lambda>f. (f, iteration)) files"
  by (induction files) auto

lemma find_duplicate_files_terminal:
  "find_duplicate_files disk sha256 st 2 =
     (case classify_groups (source_table st) (destination_table st) of
        (out, dest) \<Rightarrow> (out, (entered st 2)\<lparr>destination_table := dest\<rparr>))"
  by (simp add: find_duplicate_files.simps [of _ _ st] Let_def entered_def split: prod.splits)

lemma find_duplicate_files_level_cases [consumes 1, case_names stop raise recurse]:
  assumes "iteration \<noteq> 2"
  obtains
    (stop) dest where
      "classify_singletons (source_table st) (destination_table st) [] = (dest, [])"
      "find_duplicate_files disk sha256 st iteration =
         (Returned, (entered st iteration)\<lparr>destination_table := dest\<rparr>)"
  | (raise) dest pot e st1 where
      "classify_singletons (source_table st) (destination_table st) [] = (dest, pot)"
      "pot \<noteq> []"
      "rehash_groups disk sha256 pot
         ((entered st iteration)\<lparr>source_table := [], destination_table := dest\<rparr>) iteration =
         (Raised e, st1)"
      "find_duplicate_files disk sha256 st iteration = (Raised e, st1)"
  | (recurse) dest pot st1 where
      "classify_singletons (source_table st) (destination_table st) [] = (dest, pot)"
      "pot \<noteq> []"
      "rehash_groups disk sha256 pot
         ((entered st iteration)\<lparr>source_table := [], destination_table := dest\<rparr>) iteration =
         (Returned, st1)"
      "find_duplicate_files disk sha256 st iteration =
         find_duplicate_files disk sha256 st1 (iteration + 1)"
proof -
  obtain dest pot where cs:
    "classify_singletons (source_table st) (destination_table st) [] = (dest, pot)"
    by (cases "classify_singletons (source_table st) (destination_table st) []")
  show thesis
  proof (cases "pot = []")
    case True
    with cs assms stop show thesis
      by (simp add: find_duplicate_files.simps [of _ _ st] Let_def entered_def)
  next
    case False
    obtain out st1 where rg:
      "rehash_groups disk sha256 pot
         ((entered st iteration)\<lparr>source_table := [], destination_table := dest\<rparr>) iteration =
         (out, st1)"
      by (cases "rehash_groups disk sha256 pot
         ((entered st iteration)\<lparr>source_table := [], destination_table := dest\<rparr>) iteration")
    show thesis
    proof (cases out)
      case Returned
      with cs False rg assms have
        "find_duplicate_files disk sha256 st iteration =
           find_duplicate_files disk sha256 st1 (iteration + 1)"
        by (simp add: find_duplicate_files.simps [of _ _ st] Let_def entered_def)
      with cs False rg Returned recurse show thesis by blast
    next
      case (Raised e)
      with cs False rg assms have
        "find_duplicate_files disk sha256 st iteration = (Raised e, st1)"
        by (simp add: find_duplicate_files.simps [of _ _ st] Let_def entered_def)
      with cs False rg Raised raise show thesis by blast
    qed
  qed
qed

text \<open>What a rehash does to the trace and to the table.\<close>

lemma rehash_and_add_to_table_trace:
  "rehash_and_add_to_table disk sha256 files (tbl, tr) iteration = (out, tbl', tr') \<Longrightarrow>
   \<exists>hs. tr' = tr @ map (\<lambda>f. GetHash f iteration) hs \<and> set hs \<subseteq> set files"
proof (induction files arbitrary: tbl tr)
  case Nil
  then show ?case by simp
next
  case (Cons f files)
  show ?case
  proof (cases "file_key disk sha256 iteration f")
    case None
    with Cons.prems have "tr' = tr \<or> tr' = tr @ [GetHash f iteration]"
      by (auto simp: file_key_def split: option.splits sum.splits)
    then show ?thesis
    proof
      assume "tr' = tr"
      then have "tr' = tr @ map (\<lambda>f. GetHash f iteration) [] \<and> set [] \<subseteq> set (f # files)" by simp
      then show ?thesis by blast
    next
      assume "tr' = tr @ [GetHash f iteration]"
      then have "tr' = tr @ map (\<lambda>f. GetHash f iteration) [f] \<and> set [f] \<subseteq> set (f # files)" by simp
      then show ?thesis by blast
    qed
  next
    case (Some k)
    then obtain h where h: "k = Digest h"
      and r: "rehash_and_add_to_table disk sha256 files
        (append_at (Digest h) f tbl, tr @ [GetHash f iteration]) iteration = (out, tbl', tr')"
      using Cons.prems by (auto simp: file_key_def split: option.splits sum.splits)
    from Cons.IH [OF r] obtain hs' where
      d: "tr' = (tr @ [GetHash f iteration]) @ map (\<lambda>f. GetHash f iteration) hs'"
         "set hs' \<subseteq> set files"
      by blast
    then have "tr' = tr @ map (\<lambda>f. GetHash f iteration) (f # hs') \<and>
               set (f # hs') \<subseteq> set (f # files)"
      by auto
    then show ?thesis by blast
  qed
qed

lemma rehash_groups_trace:
  "rehash_groups disk sha256 pot st iteration = (out, st') \<Longrightarrow>
   \<exists>hs. trace st' = trace st @ map (\<lambda>f. GetHash f iteration) hs \<and>
           set hs \<subseteq> set (handles pot)"
proof (induction pot arbitrary: st)
  case Nil
  then have "trace st' = trace st @ map (\<lambda>f. GetHash f iteration) [] \<and> set [] \<subseteq> set (handles [])"
    by simp
  then show ?case by blast
next
  case (Cons g pot)
  obtain k files where g: "g = (k, files)" by (cases g)
  obtain o1 tbl tr where r:
    "rehash_and_add_to_table disk sha256 files (source_table st, trace st) iteration = (o1, tbl, tr)"
    by (metis prod_cases3)
  from rehash_and_add_to_table_trace [OF r] obtain d1 where
    d1: "tr = trace st @ map (\<lambda>f. GetHash f iteration) d1" "set d1 \<subseteq> set files"
    by blast
  show ?case
  proof (cases o1)
    case Returned
    with Cons.prems r g have
      "rehash_groups disk sha256 pot (st\<lparr>source_table := tbl, trace := tr\<rparr>) iteration = (out, st')"
      by simp
    from Cons.IH [OF this] obtain d2 where
      d2: "trace st' = tr @ map (\<lambda>f. GetHash f iteration) d2" "set d2 \<subseteq> set (handles pot)"
      by auto
    with d1 g have "trace st' = trace st @ map (\<lambda>f. GetHash f iteration) (d1 @ d2) \<and>
                  set (d1 @ d2) \<subseteq> set (handles (g # pot))"
      by auto
    then show ?thesis by blast
  next
    case (Raised e)
    with Cons.prems r g have "trace st' = tr" by auto
    with d1 g have "trace st' = trace st @ map (\<lambda>f. GetHash f iteration) d1 \<and>
                  set d1 \<subseteq> set (handles (g # pot))"
      by auto
    then show ?thesis by blast
  qed
qed

lemma rehash_and_add_to_table_bucket:
  "rehash_and_add_to_table disk sha256 files (tbl, tr) iteration = (Returned, tbl', tr') \<Longrightarrow>
   bucket k tbl' = bucket k tbl @ filter (\<lambda>f. file_key disk sha256 iteration f = Some k) files"
proof (induction files arbitrary: tbl tr)
  case Nil
  then show ?case by simp
next
  case (Cons f files)
  from Cons.prems obtain fo h where
    f: "disk f = Some fo" "get_hash sha256 fo iteration = Inr h"
    and r: "rehash_and_add_to_table disk sha256 files
       (append_at (Digest h) f tbl, tr @ [GetHash f iteration]) iteration = (Returned, tbl', tr')"
    by (auto split: option.splits sum.splits)
  from f have "file_key disk sha256 iteration f = Some (Digest h)"
    by (simp add: file_key_def)
  with Cons.IH [OF r] show ?case
    by (auto simp: bucket_append_at)
qed

lemma rehash_groups_bucket:
  "rehash_groups disk sha256 pot st iteration = (Returned, st') \<Longrightarrow>
   bucket k (source_table st') =
     bucket k (source_table st) @ filter (\<lambda>f. file_key disk sha256 iteration f = Some k) (handles pot)"
proof (induction pot arbitrary: st)
  case Nil
  then show ?case by simp
next
  case (Cons g pot)
  obtain k' files where g: "g = (k', files)" by (cases g)
  from Cons.prems [unfolded g] obtain tbl tr where
    r: "rehash_and_add_to_table disk sha256 files (source_table st, trace st) iteration = (Returned, tbl, tr)"
    and rest: "rehash_groups disk sha256 pot (st\<lparr>source_table := tbl, trace := tr\<rparr>) iteration = (Returned, st')"
    by (rule rehash_groups_Cons_Returned)
  from Cons.IH [OF rest] rehash_and_add_to_table_bucket [OF r] show ?case
    using g by simp
qed

section \<open>Extension labels: facts\<close>

lemma rfind_absent: "c \<notin> set p \<Longrightarrow> rfind p c = - 1"
  by (simp add: rfind_def)

lemma rfind_last: "c \<notin> set e \<Longrightarrow> rfind (stem @ c # e) c = int (length stem)"
proof -
  assume "c \<notin> set e"
  then have "takeWhile (\<lambda>x. x \<noteq> c) (rev e @ c # rev stem) =
      rev e @ takeWhile (\<lambda>x. x \<noteq> c) (c # rev stem)"
    by (intro takeWhile_append2) auto
  then have "takeWhile (\<lambda>x. x \<noteq> c) (rev e @ c # rev stem) = rev e"
    by simp
  then show ?thesis
    by (simp add: rfind_def)
qed

lemma skip_leading_dots_iff:
  "skip_leading_dots p i d = (\<exists>j. i \<le> j \<and> j < d \<and> p ! j \<noteq> CHR ''.'')"
proof (induction p i d rule: skip_leading_dots.induct)
  case (1 p i d)
  show ?case
  proof (cases "i < d")
    case False
    then show ?thesis by (simp add: skip_leading_dots.simps [of p i d])
  next
    case True
    show ?thesis
    proof (cases "p ! i \<noteq> CHR ''.''")
      case True
      with \<open>i < d\<close> show ?thesis
        by (auto simp: skip_leading_dots.simps [of p i d])
    next
      case False
      from False \<open>i < d\<close> have unfold:
        "skip_leading_dots p i d = skip_leading_dots p (i + 1) d"
        by (simp add: skip_leading_dots.simps [of p i d])
      from False \<open>i < d\<close> have ih:
        "skip_leading_dots p (i + 1) d = (\<exists>j. i + 1 \<le> j \<and> j < d \<and> p ! j \<noteq> CHR ''.'')"
        by (intro "1.IH") auto
      have "(\<exists>j. i + 1 \<le> j \<and> j < d \<and> p ! j \<noteq> CHR ''.'') =
            (\<exists>j. i \<le> j \<and> j < d \<and> p ! j \<noteq> CHR ''.'')" (is "?L = ?R")
      proof
        assume ?L
        then obtain j where "i + 1 \<le> j" "j < d" "p ! j \<noteq> CHR ''.''" by blast
        then have "i \<le> j \<and> j < d \<and> p ! j \<noteq> CHR ''.''" by simp
        then show ?R by blast
      next
        assume ?R
        then obtain j where j: "i \<le> j" "j < d" "p ! j \<noteq> CHR ''.''" by blast
        with False have "j \<noteq> i" by auto
        with j have "i + 1 \<le> j \<and> j < d \<and> p ! j \<noteq> CHR ''.''" by simp
        then show ?L by blast
      qed
      with unfold ih show ?thesis by simp
    qed
  qed
qed

lemma rfind_lower: "- 1 \<le> rfind p c"
proof -
  have "length (takeWhile (\<lambda>x. x \<noteq> c) (rev p)) \<le> length (rev p)"
    by (rule length_takeWhile_le)
  then show ?thesis
    by (simp add: rfind_def)
qed

lemma splitext_no_dot: "CHR ''.'' \<notin> set p \<Longrightarrow> splitext p = (p, [])"
  using rfind_lower [of p "CHR ''/''"] by (simp add: splitext_def rfind_absent Let_def)

lemma splitext_extension:
  assumes "CHR ''.'' \<notin> set e" and "CHR ''/'' \<notin> set (stem @ e)"
    and "\<exists>c \<in> set stem. c \<noteq> CHR ''.''"
  shows "splitext (stem @ CHR ''.'' # e) = (stem, CHR ''.'' # e)"
proof -
  have dot: "rfind (stem @ CHR ''.'' # e) CHR ''.'' = int (length stem)"
    using assms(1) by (rule rfind_last)
  have sep: "rfind (stem @ CHR ''.'' # e) CHR ''/'' = - 1"
    using assms(2) by (simp add: rfind_absent)
  from assms(3) obtain j where "j < length stem" "stem ! j \<noteq> CHR ''.''"
    by (auto simp: in_set_conv_nth)
  then have "\<exists>j. 0 \<le> j \<and> j < length stem \<and> (stem @ CHR ''.'' # e) ! j \<noteq> CHR ''.''"
    by (auto simp: nth_append)
  then have "skip_leading_dots (stem @ CHR ''.'' # e) 0 (length stem)"
    by (simp only: skip_leading_dots_iff)
  with dot sep show ?thesis
    by (simp add: splitext_def Let_def)
qed

lemma splitext_leading_dots:
  assumes "CHR ''.'' \<notin> set e" and "CHR ''/'' \<notin> set (stem @ e)"
    and "\<forall>c \<in> set stem. c = CHR ''.''"
  shows "splitext (stem @ CHR ''.'' # e) = (stem @ CHR ''.'' # e, [])"
proof -
  have dot: "rfind (stem @ CHR ''.'' # e) CHR ''.'' = int (length stem)"
    using assms(1) by (rule rfind_last)
  have "(stem @ CHR ''.'' # e) ! j = CHR ''.''" if "j < length stem" for j
    using that assms(3) by (simp add: nth_append)
  then have "\<not> (\<exists>j. 0 \<le> j \<and> j < length stem \<and> (stem @ CHR ''.'' # e) ! j \<noteq> CHR ''.'')"
    by blast
  then have "\<not> skip_leading_dots (stem @ CHR ''.'' # e) 0 (length stem)"
    by (simp only: skip_leading_dots_iff not_False_eq_True)
  moreover have "rfind (stem @ CHR ''.'' # e) CHR ''/'' = - 1"
    using assms(2) by (simp add: rfind_absent)
  ultimately show ?thesis
    using dot by (simp add: splitext_def Let_def)
qed

lemma extension_label_leading_dots:
  assumes "CHR ''.'' \<notin> set e" and "CHR ''/'' \<notin> set (stem @ e)"
    and "\<forall>c \<in> set stem. c = CHR ''.''"
  shows "extension_label (stem @ CHR ''.'' # e) = ''no-extension-files''"
  using splitext_leading_dots [OF assms] by (simp add: extension_label_def)

lemma extension_label_no_dot:
  "CHR ''.'' \<notin> set file \<Longrightarrow> extension_label file = ''no-extension-files''"
  by (simp add: extension_label_def splitext_no_dot)

lemma extension_label_extension:
  assumes "CHR ''.'' \<notin> set e" and "CHR ''/'' \<notin> set (stem @ e)"
    and "\<exists>c \<in> set stem. c \<noteq> CHR ''.''"
  shows "extension_label (stem @ CHR ''.'' # e) = e @ ''-files''"
  using splitext_extension [OF assms] by (simp add: extension_label_def)

section \<open>Calls and outcomes\<close>

lemma trace_entered [simp]:
  "trace (entered st iteration) =
     trace st @ [Call iteration (source_table st) (destination_table st)]"
  by (simp add: entered_def)

lemma source_table_entered [simp]: "source_table (entered st iteration) = source_table st"
  by (simp add: entered_def)

lemma destination_table_entered [simp]:
  "destination_table (entered st iteration) = destination_table st"
  by (simp add: entered_def)

lemma rehash_groups_calls:
  assumes "rehash_groups disk sha256 pot st iteration = (out, st')"
  shows "calls (trace st') = calls (trace st)"
proof -
  from rehash_groups_trace [OF assms] obtain hs where
    "trace st' = trace st @ map (\<lambda>f. GetHash f iteration) hs"
    by blast
  then show ?thesis by simp
qed

lemma rehash_groups_hashed:
  assumes "rehash_groups disk sha256 pot st iteration = (out, st')"
  shows "\<exists>hs. hashed (trace st') = hashed (trace st) @ map (\<lambda>f. (f, iteration)) hs \<and>
                set hs \<subseteq> set (handles pot)"
proof -
  from rehash_groups_trace [OF assms] obtain hs where
    "trace st' = trace st @ map (\<lambda>f. GetHash f iteration) hs" "set hs \<subseteq> set (handles pot)"
    by blast
  then have "hashed (trace st') = hashed (trace st) @ map (\<lambda>f. (f, iteration)) hs \<and>
             set hs \<subseteq> set (handles pot)"
    by simp
  then show ?thesis by blast
qed

lemma rehash_and_add_to_table_Raised:
  "rehash_and_add_to_table disk sha256 files (tbl, tr) iteration = (Raised e, tbl', tr') \<Longrightarrow>
   iteration = 0 \<or> iteration = 1 \<Longrightarrow> e = Exception ''Unable to read current file''"
proof (induction files arbitrary: tbl tr)
  case Nil
  then show ?case by simp
next
  case (Cons f files)
  show ?case
  proof (cases "file_key disk sha256 iteration f")
    case None
    with Cons.prems show ?thesis
      by (auto simp: file_key_def get_hash_def split: option.splits sum.splits file_object.splits if_splits)
  next
    case (Some k)
    then obtain h where
      "rehash_and_add_to_table disk sha256 files
        (append_at (Digest h) f tbl, tr @ [GetHash f iteration]) iteration = (Raised e, tbl', tr')"
      using Cons.prems(1) by (auto simp: file_key_def split: option.splits sum.splits)
    from Cons.IH [OF this Cons.prems(2)] show ?thesis .
  qed
qed

lemma rehash_groups_Raised:
  "rehash_groups disk sha256 pot st iteration = (Raised e, st') \<Longrightarrow>
   iteration = 0 \<or> iteration = 1 \<Longrightarrow> e = Exception ''Unable to read current file''"
proof (induction pot arbitrary: st)
  case Nil
  then show ?case by simp
next
  case (Cons g pot)
  obtain k files where g: "g = (k, files)" by (cases g)
  obtain o1 tbl tr where r:
    "rehash_and_add_to_table disk sha256 files (source_table st, trace st) iteration = (o1, tbl, tr)"
    by (metis prod_cases3)
  show ?case
  proof (cases o1)
    case Returned
    with Cons.prems r g have
      "rehash_groups disk sha256 pot (st\<lparr>source_table := tbl, trace := tr\<rparr>) iteration = (Raised e, st')"
      by simp
    from Cons.IH [OF this Cons.prems(2)] show ?thesis .
  next
    case (Raised e')
    with Cons.prems r g have "e' = e" by simp
    with r Raised rehash_and_add_to_table_Raised [OF _ Cons.prems(2)] show ?thesis by blast
  qed
qed

lemma classify_groups_outcome:
  "classify_groups src dest = (out, dest') \<Longrightarrow> out = Returned \<or> out = Raised IndexError"
proof (induction src arbitrary: dest)
  case Nil
  then show ?case by simp
next
  case (Cons g src)
  obtain k files where g: "g = (k, files)" by (cases g)
  with Cons show ?case by (cases files) auto
qed

lemma classify_groups_Returned_iff:
  "(fst (classify_groups src dest) = Returned) = ([] \<notin> set (map snd src))"
proof (induction src arbitrary: dest)
  case Nil
  then show ?case by simp
next
  case (Cons g src)
  obtain k files where g: "g = (k, files)" by (cases g)
  with Cons show ?case by (cases files) auto
qed

text \<open>One level of a run: it ends there, or it goes on with the next iteration.\<close>

lemma level_calls:
  assumes "iteration \<noteq> 2"
  shows "calls (trace (snd (find_duplicate_files disk sha256 st iteration))) =
           calls (trace st) @ [iteration] \<or>
         (\<exists>st1. find_duplicate_files disk sha256 st iteration =
                  find_duplicate_files disk sha256 st1 (iteration + 1) \<and>
                calls (trace st1) = calls (trace st) @ [iteration])"
  using assms
proof (cases rule: find_duplicate_files_level_cases [of iteration st disk sha256])
  case (stop dest)
  then show ?thesis by simp
next
  case (raise dest pot e st1)
  from rehash_groups_calls [OF raise(3)] raise(4) show ?thesis by simp
next
  case (recurse dest pot st1)
  from rehash_groups_calls [OF recurse(3)] recurse(4) show ?thesis by auto
qed

lemma terminal_trace:
  "trace (snd (find_duplicate_files disk sha256 st 2)) =
     trace st @ [Call 2 (source_table st) (destination_table st)]"
  by (simp add: find_duplicate_files_terminal split: prod.splits)

lemma level_hashed:
  assumes "iteration \<noteq> 2"
  shows "set (map snd (hashed (trace (snd (find_duplicate_files disk sha256 st iteration))))) \<subseteq>
           set (map snd (hashed (trace st))) \<union> {iteration} \<or>
         (\<exists>st1. find_duplicate_files disk sha256 st iteration =
                  find_duplicate_files disk sha256 st1 (iteration + 1) \<and>
                set (map snd (hashed (trace st1))) \<subseteq> set (map snd (hashed (trace st))) \<union> {iteration})"
  using assms
proof (cases rule: find_duplicate_files_level_cases [of iteration st disk sha256])
  case (stop dest)
  then show ?thesis by auto
next
  case (raise dest pot e st1)
  from rehash_groups_hashed [OF raise(3)] raise(4) show ?thesis by auto
next
  case (recurse dest pot st1)
  from rehash_groups_hashed [OF recurse(3)] obtain hs where
    "hashed (trace st1) = hashed (trace st) @ map (\<lambda>f. (f, iteration)) hs"
    by auto
  then have "set (map snd (hashed (trace st1))) \<subseteq> set (map snd (hashed (trace st))) \<union> {iteration}"
    by auto
  with recurse(4) show ?thesis by blast
qed

lemma level_outcome:
  assumes "iteration = 0 \<or> iteration = 1"
  shows "fst (find_duplicate_files disk sha256 st iteration) = Returned \<or>
         fst (find_duplicate_files disk sha256 st iteration) =
           Raised (Exception ''Unable to read current file'') \<or>
         (\<exists>st1. find_duplicate_files disk sha256 st iteration =
                  find_duplicate_files disk sha256 st1 (iteration + 1))"
proof -
  from assms have "iteration \<noteq> 2" by auto
  then show ?thesis
  proof (cases rule: find_duplicate_files_level_cases [of iteration st disk sha256])
    case (stop dest)
    then show ?thesis by simp
  next
    case (raise dest pot e st1)
    from rehash_groups_Raised [OF raise(3) assms] raise(4) show ?thesis by simp
  next
    case (recurse dest pot st1)
    then show ?thesis by blast
  qed
qed

lemma terminal_outcome:
  "fst (find_duplicate_files disk sha256 st 2) = Returned \<or>
   fst (find_duplicate_files disk sha256 st 2) = Raised IndexError"
  using classify_groups_outcome [of "source_table st" "destination_table st"]
  by (auto simp: find_duplicate_files_terminal split: prod.splits)

section \<open>The loops of \<open>find_duplicate_files\<close>\<close>

lemma singletons_Nil [simp]: "singletons [] = []"
  by (simp add: singletons_def)

lemma singletons_Cons [simp]:
  "singletons ((k, files) # tbl) = (if length files = 1 then files else []) @ singletons tbl"
  by (simp add: singletons_def)

lemma ambiguous_Nil [simp]: "ambiguous [] = []"
  by (simp add: ambiguous_def)

lemma ambiguous_Cons [simp]:
  "ambiguous ((k, files) # tbl) = (if length files \<noteq> 1 then files else []) @ ambiguous tbl"
  by (simp add: ambiguous_def)

lemma terminal_additions_Nil [simp]: "terminal_additions label [] = []"
  by (simp add: terminal_additions_def)

lemma terminal_additions_Cons [simp]:
  "terminal_additions label ((k, files) # tbl) =
     filter (\<lambda>f. extension_label f = label) (take 1 files) @
     (if label = ''duplicate-files'' then drop 1 files else []) @ terminal_additions label tbl"
  by (simp add: terminal_additions_def)

lemma set_ambiguous_iff:
  "f \<in> set (ambiguous tbl) \<longleftrightarrow> (\<exists>k files. (k, files) \<in> set tbl \<and> length files \<noteq> 1 \<and> f \<in> set files)"
  by (auto simp: ambiguous_def)

lemma set_singletons_iff:
  "f \<in> set (singletons tbl) \<longleftrightarrow> (\<exists>k. (k, [f]) \<in> set tbl)"
proof (induction tbl)
  case Nil
  then show ?case by simp
next
  case (Cons g tbl)
  obtain k files where g: "g = (k, files)" by (cases g)
  have "length files = 1 \<Longrightarrow> (f \<in> set files) = (files = [f])"
    by (cases files) auto
  with Cons g show ?case by auto
qed

lemma bucket_add_unique:
  "bucket label (add_unique_file_to_table file dest) =
     bucket label dest @ filter (\<lambda>f. extension_label f = label) [file]"
  by (auto simp: add_unique_file_to_table_def bucket_append_at)

lemma bucket_add_duplicates:
  "bucket label (add_duplicates files dest) =
     bucket label dest @ (if label = ''duplicate-files'' then files else [])"
  by (induction files arbitrary: dest) (auto simp: bucket_append_at)

lemma classify_singletons_bucket:
  "classify_singletons src dest pot = (dest', pot') \<Longrightarrow>
   bucket label dest' =
     bucket label dest @ filter (\<lambda>f. extension_label f = label) (singletons src)"
proof (induction src arbitrary: dest pot)
  case Nil
  then show ?case by simp
next
  case (Cons g src)
  obtain k files where g: "g = (k, files)" by (cases g)
  show ?case
  proof (cases "length files = 1")
    case True
    then obtain f where f: "files = [f]" by (cases files) auto
    with Cons.prems g have
      "classify_singletons src (add_unique_file_to_table f dest) pot = (dest', pot')"
      by simp
    from Cons.IH [OF this] show ?thesis
      using g f by (simp add: bucket_add_unique)
  next
    case False
    with Cons.prems g have
      "classify_singletons src dest (extend_at k files pot) = (dest', pot')"
      by simp
    from Cons.IH [OF this] show ?thesis
      using g False by simp
  qed
qed

lemma classify_singletons_handles:
  "classify_singletons src dest pot = (dest', pot') \<Longrightarrow>
   mset (handles pot') = mset (handles pot) + mset (ambiguous src)"
proof (induction src arbitrary: dest pot)
  case Nil
  then show ?case by simp
next
  case (Cons g src)
  obtain k files where g: "g = (k, files)" by (cases g)
  show ?case
  proof (cases "length files = 1")
    case True
    with Cons.prems g have
      "classify_singletons src (add_unique_file_to_table (hd files) dest) pot = (dest', pot')"
      by simp
    from Cons.IH [OF this] show ?thesis
      using g True by simp
  next
    case False
    with Cons.prems g have
      "classify_singletons src dest (extend_at k files pot) = (dest', pot')"
      by simp
    from Cons.IH [OF this] show ?thesis
      using g False by (simp add: mset_handles_extend_at)
  qed
qed

lemma classify_singletons_set_handles:
  assumes "classify_singletons src dest [] = (dest', pot')"
  shows "set (handles pot') = set (ambiguous src)"
proof -
  from classify_singletons_handles [OF assms] have "mset (handles pot') = mset (ambiguous src)"
    by simp
  then show ?thesis by (rule mset_eq_setD)
qed

lemma classify_groups_bucket:
  "classify_groups src dest = (Returned, dest') \<Longrightarrow>
   bucket label dest' = bucket label dest @ terminal_additions label src"
proof (induction src arbitrary: dest)
  case Nil
  then show ?case by simp
next
  case (Cons g src)
  obtain k files where g: "g = (k, files)" by (cases g)
  show ?case
  proof (cases files)
    case Nil
    with Cons.prems g show ?thesis by simp
  next
    case (Cons first others)
    with Cons.prems g have
      "classify_groups src (add_duplicates others (add_unique_file_to_table first dest)) = (Returned, dest')"
      by simp
    from Cons.IH [OF this] show ?thesis
      using g Cons by (simp add: bucket_add_duplicates bucket_add_unique)
  qed
qed

lemma classify_groups_bucket_grows:
  "classify_groups src dest = (out, dest') \<Longrightarrow> \<exists>more. bucket label dest' = bucket label dest @ more"
proof (induction src arbitrary: dest)
  case Nil
  then show ?case by simp
next
  case (Cons g src)
  obtain k files where g: "g = (k, files)" by (cases g)
  show ?case
  proof (cases files)
    case Nil
    with Cons.prems g show ?thesis by simp
  next
    case (Cons first others)
    with Cons.prems g have
      "classify_groups src (add_duplicates others (add_unique_file_to_table first dest)) = (out, dest')"
      by simp
    from Cons.IH [OF this] show ?thesis
      by (auto simp: bucket_add_duplicates bucket_add_unique)
  qed
qed

text \<open>A rehash that returns has hashed every file of its list, in order.\<close>

lemma rehash_and_add_to_table_Returned_trace:
  "rehash_and_add_to_table disk sha256 files (tbl, tr) iteration = (Returned, tbl', tr') \<Longrightarrow>
   tr' = tr @ map (\<lambda>f. GetHash f iteration) files"
proof (induction files arbitrary: tbl tr)
  case Nil
  then show ?case by simp
next
  case (Cons f files)
  from Cons.prems obtain h where
    "rehash_and_add_to_table disk sha256 files
       (append_at (Digest h) f tbl, tr @ [GetHash f iteration]) iteration = (Returned, tbl', tr')"
    by (auto split: option.splits sum.splits)
  from Cons.IH [OF this] show ?case by simp
qed

lemma rehash_groups_Returned_trace:
  "rehash_groups disk sha256 pot st iteration = (Returned, st') \<Longrightarrow>
   trace st' = trace st @ map (\<lambda>f. GetHash f iteration) (handles pot)"
proof (induction pot arbitrary: st)
  case Nil
  then show ?case by simp
next
  case (Cons g pot)
  obtain k' files where g: "g = (k', files)" by (cases g)
  from Cons.prems [unfolded g] obtain tbl tr where
    r: "rehash_and_add_to_table disk sha256 files (source_table st, trace st) iteration = (Returned, tbl, tr)"
    and rest: "rehash_groups disk sha256 pot (st\<lparr>source_table := tbl, trace := tr\<rparr>) iteration = (Returned, st')"
    by (rule rehash_groups_Cons_Returned)
  from Cons.IH [OF rest] rehash_and_add_to_table_Returned_trace [OF r] show ?case
    using g by simp
qed

lemma rehash_and_add_to_table_Returned_keys:
  "rehash_and_add_to_table disk sha256 files (tbl, tr) iteration = (Returned, tbl', tr') \<Longrightarrow>
   f \<in> set files \<Longrightarrow> file_key disk sha256 iteration f \<noteq> None"
proof (induction files arbitrary: tbl tr)
  case Nil
  then show ?case by simp
next
  case (Cons g files)
  from Cons.prems(1) obtain fo h where
    k: "disk g = Some fo" "get_hash sha256 fo iteration = Inr h"
    and r: "rehash_and_add_to_table disk sha256 files
       (append_at (Digest h) g tbl, tr @ [GetHash g iteration]) iteration = (Returned, tbl', tr')"
    by (auto split: option.splits sum.splits)
  show ?case
  proof (cases "f = g")
    case True
    with k show ?thesis by (simp add: file_key_def)
  next
    case False
    with Cons.prems(2) have "f \<in> set files" by simp
    from Cons.IH [OF r this] show ?thesis .
  qed
qed

lemma rehash_groups_Returned_keys:
  "rehash_groups disk sha256 pot st iteration = (Returned, st') \<Longrightarrow>
   f \<in> set (handles pot) \<Longrightarrow> file_key disk sha256 iteration f \<noteq> None"
proof (induction pot arbitrary: st)
  case Nil
  then show ?case by simp
next
  case (Cons g pot)
  obtain k' files where g: "g = (k', files)" by (cases g)
  from Cons.prems(1) [unfolded g] obtain tbl tr where
    r: "rehash_and_add_to_table disk sha256 files (source_table st, trace st) iteration = (Returned, tbl, tr)"
    and rest: "rehash_groups disk sha256 pot (st\<lparr>source_table := tbl, trace := tr\<rparr>) iteration = (Returned, st')"
    by (rule rehash_groups_Cons_Returned)
  from Cons.prems(2) g have "f \<in> set files \<or> f \<in> set (handles pot)" by simp
  then show ?case
  proof
    assume "f \<in> set files"
    with r show ?thesis by (rule rehash_and_add_to_table_Returned_keys)
  next
    assume "f \<in> set (handles pot)"
    with rest show ?thesis by (rule Cons.IH)
  qed
qed

section \<open>Induction over the levels\<close>

lemma find_duplicate_files_levels_induct [case_names terminal stop raise recurse]:
  assumes terminal: "\<And>st. P st 2"
    and stop: "\<And>st iteration dest.
      iteration \<noteq> 2 \<Longrightarrow>
      classify_singletons (source_table st) (destination_table st) [] = (dest, []) \<Longrightarrow>
      find_duplicate_files disk sha256 st iteration =
        (Returned, (entered st iteration)\<lparr>destination_table := dest\<rparr>) \<Longrightarrow>
      P st iteration"
    and raise: "\<And>st iteration dest pot e st1.
      iteration \<noteq> 2 \<Longrightarrow>
      classify_singletons (source_table st) (destination_table st) [] = (dest, pot) \<Longrightarrow>
      pot \<noteq> [] \<Longrightarrow>
      rehash_groups disk sha256 pot
        ((entered st iteration)\<lparr>source_table := [], destination_table := dest\<rparr>) iteration =
        (Raised e, st1) \<Longrightarrow>
      find_duplicate_files disk sha256 st iteration = (Raised e, st1) \<Longrightarrow>
      P st iteration"
    and recurse: "\<And>st iteration dest pot st1.
      iteration \<noteq> 2 \<Longrightarrow>
      classify_singletons (source_table st) (destination_table st) [] = (dest, pot) \<Longrightarrow>
      pot \<noteq> [] \<Longrightarrow>
      rehash_groups disk sha256 pot
        ((entered st iteration)\<lparr>source_table := [], destination_table := dest\<rparr>) iteration =
        (Returned, st1) \<Longrightarrow>
      find_duplicate_files disk sha256 st iteration =
        find_duplicate_files disk sha256 st1 (iteration + 1) \<Longrightarrow>
      P st1 (iteration + 1) \<Longrightarrow>
      P st iteration"
  shows "P st iteration"
proof -
  have "d = disk \<Longrightarrow> s = sha256 \<Longrightarrow> P st iteration" for d s
  proof (induction d s st iteration rule: find_duplicate_files.induct)
    case (1 d s st0 iteration)
    show ?case
    proof (cases "iteration = 2")
      case True
      with terminal [of st0] show ?thesis by simp
    next
      case False
      then show ?thesis
      proof (cases rule: find_duplicate_files_level_cases [of iteration st0 disk sha256])
        case (stop dest)
        from False stop(1) stop(2) show ?thesis by (rule assms(2))
      next
        case (raise dest pot e st1)
        from False raise(1) raise(2) raise(3) raise(4) show ?thesis by (rule assms(3))
      next
        case (recurse dest pot st1)
        have e: "entered st0 iteration =
            st0\<lparr>trace := trace st0 @ [Call iteration (source_table st0) (destination_table st0)]\<rparr>"
          by (simp add: entered_def)
        have cs: "(dest, pot) = classify_singletons (source_table (entered st0 iteration))
            (destination_table (entered st0 iteration)) []"
          using recurse(1) by simp
        have rg: "(Returned, st1) = rehash_groups d s pot
            ((entered st0 iteration)\<lparr>source_table := [], destination_table := dest\<rparr>) iteration"
          using recurse(3) "1.prems" by simp
        have "P st1 (iteration + 1)"
          using "1.IH" [OF e False cs recurse(2) rg refl "1.prems"] .
        with False recurse show ?thesis by (rule assms(4))
      qed
    qed
  qed
  then show ?thesis by simp
qed


lemmas levels_induct = find_duplicate_files_levels_induct

lemma set_ambiguous_handles: "set (ambiguous tbl) \<subseteq> set (handles tbl)"
  by (auto simp: ambiguous_def handles_def)

lemma rehash_groups_set_handles:
  assumes "rehash_groups disk sha256 pot st iteration = (Returned, st')"
    and "source_table st = []"
  shows "set (handles (source_table st')) = set (handles pot)"
proof -
  from mset_handles_rehash_groups [OF assms(1)] assms(2)
  have "mset (handles (source_table st')) = mset (handles pot)" by simp
  then show ?thesis by (rule mset_eq_setD)
qed

text \<open>The buckets of the destination table only grow, whatever the outcome.\<close>

lemma find_duplicate_files_bucket_grows:
  "\<exists>more. bucket label (destination_table (snd (find_duplicate_files disk sha256 st iteration))) =
          bucket label (destination_table st) @ more"
proof (induction st iteration rule: levels_induct [where disk = disk and ?sha256.0 = sha256])
  case (terminal st)
  obtain out dest where c: "classify_groups (source_table st) (destination_table st) = (out, dest)"
    by (cases "classify_groups (source_table st) (destination_table st)")
  from classify_groups_bucket_grows [OF c] c show ?case
    by (simp add: find_duplicate_files_terminal)
next
  case (stop st iteration dest)
  from classify_singletons_bucket [OF stop(2)] stop(3) show ?case by simp
next
  case (raise st iteration dest pot e st1)
  from destination_table_rehash_groups [OF raise(4)] classify_singletons_bucket [OF raise(2)] raise(5)
  show ?case by simp
next
  case (recurse st iteration dest pot st1)
  from destination_table_rehash_groups [OF recurse(4)] classify_singletons_bucket [OF recurse(2)]
  have "bucket label (destination_table st1) =
      bucket label (destination_table st) @
      filter (\<lambda>f. extension_label f = label) (singletons (source_table st))"
    by simp
  with recurse(6) recurse(5) show ?case by auto
qed

text \<open>Only handles of groups with another length than one are hashed.\<close>

lemma find_duplicate_files_hashed:
  "\<exists>new. hashed (trace (snd (find_duplicate_files disk sha256 st iteration))) =
           hashed (trace st) @ new \<and>
         fst ` set new \<subseteq> set (ambiguous (source_table st))"
proof (induction st iteration rule: levels_induct [where disk = disk and ?sha256.0 = sha256])
  case (terminal st)
  have "hashed (trace (snd (find_duplicate_files disk sha256 st 2))) = hashed (trace st) @ [] \<and>
      fst ` set [] \<subseteq> set (ambiguous (source_table st))"
    by (simp add: terminal_trace)
  then show ?case by blast
next
  case (stop st iteration dest)
  then have "hashed (trace (snd (find_duplicate_files disk sha256 st iteration))) = hashed (trace st) @ [] \<and>
      fst ` set [] \<subseteq> set (ambiguous (source_table st))"
    by simp
  then show ?case by blast
next
  case (raise st iteration dest pot e st1)
  from rehash_groups_hashed [OF raise(4)] obtain hs where
    hs: "hashed (trace st1) = hashed (trace st) @ map (\<lambda>f. (f, iteration)) hs"
      "set hs \<subseteq> set (handles pot)"
    by auto
  from classify_singletons_set_handles [OF raise(2)] hs(2)
  have "fst ` set (map (\<lambda>f. (f, iteration)) hs) \<subseteq> set (ambiguous (source_table st))"
    by auto
  with hs(1) raise(5) show ?case by auto
next
  case (recurse st iteration dest pot st1)
  from rehash_groups_hashed [OF recurse(4)] obtain hs where
    hs: "hashed (trace st1) = hashed (trace st) @ map (\<lambda>f. (f, iteration)) hs"
      "set hs \<subseteq> set (handles pot)"
    by auto
  have pot: "set (handles pot) = set (ambiguous (source_table st))"
    using classify_singletons_set_handles [OF recurse(2)] .
  from recurse(6) obtain new where
    new: "hashed (trace (snd (find_duplicate_files disk sha256 st1 (iteration + 1)))) =
        hashed (trace st1) @ new"
      "fst ` set new \<subseteq> set (ambiguous (source_table st1))"
    by blast
  have "set (ambiguous (source_table st1)) \<subseteq> set (handles (source_table st1))"
    by (rule set_ambiguous_handles)
  also have "\<dots> = set (handles pot)"
    using rehash_groups_set_handles [OF recurse(4)] by simp
  finally have "fst ` set new \<subseteq> set (ambiguous (source_table st))"
    using new(2) pot by blast
  moreover have "fst ` set (map (\<lambda>f. (f, iteration)) hs) \<subseteq> set (ambiguous (source_table st))"
    using hs(2) pot by auto
  ultimately have
    "hashed (trace (snd (find_duplicate_files disk sha256 st iteration))) =
       hashed (trace st) @ (map (\<lambda>f. (f, iteration)) hs @ new) \<and>
     fst ` set (map (\<lambda>f. (f, iteration)) hs @ new) \<subseteq> set (ambiguous (source_table st))"
    using hs(1) new(1) recurse(5) by (simp only: append_assoc set_append image_Un) blast
  then show ?case by blast
qed

section \<open>Tables as dictionaries\<close>

text \<open>
  A Python dictionary has no key twice; a table filled by a rehash has no empty group
  either. Both properties are kept by the operations on tables.
\<close>

lemma key_in_keys: "(k, g) \<in> set tbl \<Longrightarrow> k \<in> fst ` set tbl"
  by force

lemma map_fst_extend_at:
  "map fst (extend_at k files tbl) =
     (if k \<in> set (map fst tbl) then map fst tbl else map fst tbl @ [k])"
  by (induction tbl) (auto dest: key_in_keys)

lemma keys_extend_at:
  "set (map fst (extend_at k files tbl)) = insert k (set (map fst tbl))"
  by (simp add: map_fst_extend_at insert_absorb del: set_map)

lemma distinct_extend_at:
  "distinct (map fst (extend_at k files tbl)) = distinct (map fst tbl)"
  by (simp add: map_fst_extend_at)

lemma nonempty_extend_at:
  "\<forall>g \<in> set tbl. snd g \<noteq> [] \<Longrightarrow> files \<noteq> [] \<Longrightarrow>
   \<forall>g \<in> set (extend_at k files tbl). snd g \<noteq> []"
proof (induction tbl)
  case Nil
  then show ?case by simp
next
  case (Cons x tbl)
  obtain k' old where x: "x = (k', old)" by (cases x)
  from Cons.prems x have "old \<noteq> []" "\<forall>g \<in> set tbl. snd g \<noteq> []" by auto
  with Cons.IH Cons.prems(2) x show ?case by simp
qed

lemma extend_at_fresh:
  "k \<notin> set (map fst tbl) \<Longrightarrow> extend_at k files tbl = tbl @ [(k, files)]"
  by (induction tbl) auto

lemma bucket_of_group:
  "distinct (map fst tbl) \<Longrightarrow> (k, grp) \<in> set tbl \<Longrightarrow> bucket k tbl = grp"
  by (simp add: bucket_def)

lemma group_of_bucket: "bucket k tbl \<noteq> [] \<Longrightarrow> (k, bucket k tbl) \<in> set tbl"
  by (auto simp: bucket_def split: option.splits dest: map_of_SomeD)

lemma rehash_and_add_to_table_dictionary:
  "rehash_and_add_to_table disk sha256 files (tbl, tr) iteration = (out, tbl', tr') \<Longrightarrow>
   distinct (map fst tbl) \<Longrightarrow> (\<forall>g \<in> set tbl. snd g \<noteq> []) \<Longrightarrow>
   distinct (map fst tbl') \<and> (\<forall>g \<in> set tbl'. snd g \<noteq> [])"
proof (induction files arbitrary: tbl tr)
  case Nil
  then show ?case by simp
next
  case (Cons f files)
  show ?case
  proof (cases "file_key disk sha256 iteration f")
    case None
    with Cons.prems have "tbl' = tbl"
      by (auto simp: file_key_def split: option.splits sum.splits)
    with Cons.prems show ?thesis by simp
  next
    case (Some k)
    then obtain h where
      r: "rehash_and_add_to_table disk sha256 files
        (append_at (Digest h) f tbl, tr @ [GetHash f iteration]) iteration = (out, tbl', tr')"
      using Cons.prems(1) by (auto simp: file_key_def split: option.splits sum.splits)
    have "distinct (map fst (append_at (Digest h) f tbl))"
      using Cons.prems(2) by (simp add: append_at_def distinct_extend_at)
    moreover have "\<forall>g \<in> set (append_at (Digest h) f tbl). snd g \<noteq> []"
      using Cons.prems(3) nonempty_extend_at [of tbl "[f]" "Digest h"] by (simp add: append_at_def)
    ultimately show ?thesis
      using Cons.IH [OF r] by blast
  qed
qed

lemma rehash_groups_dictionary:
  "rehash_groups disk sha256 pot st iteration = (out, st') \<Longrightarrow>
   distinct (map fst (source_table st)) \<Longrightarrow> (\<forall>g \<in> set (source_table st). snd g \<noteq> []) \<Longrightarrow>
   distinct (map fst (source_table st')) \<and> (\<forall>g \<in> set (source_table st'). snd g \<noteq> [])"
proof (induction pot arbitrary: st)
  case Nil
  then show ?case by simp
next
  case (Cons g pot)
  obtain k files where g: "g = (k, files)" by (cases g)
  obtain o1 tbl tr where r:
    "rehash_and_add_to_table disk sha256 files (source_table st, trace st) iteration = (o1, tbl, tr)"
    by (metis prod_cases3)
  from rehash_and_add_to_table_dictionary [OF r Cons.prems(2) Cons.prems(3)]
  have d: "distinct (map fst tbl)" "(\<forall>g \<in> set tbl. snd g \<noteq> [])" by simp_all
  show ?case
  proof (cases o1)
    case Returned
    with Cons.prems r g have
      "rehash_groups disk sha256 pot (st\<lparr>source_table := tbl, trace := tr\<rparr>) iteration = (out, st')"
      by simp
    from Cons.IH [OF this] d show ?thesis by simp
  next
    case (Raised e)
    with Cons.prems r g have "source_table st' = tbl" by auto
    with d show ?thesis by simp
  qed
qed

text \<open>
  With distinct keys, the first loop copies the groups of another length than one, in
  their order.
\<close>

lemma classify_singletons_pot:
  "classify_singletons src dest pot = (dest', pot') \<Longrightarrow>
   distinct (map fst src) \<Longrightarrow> set (map fst src) \<inter> set (map fst pot) = {} \<Longrightarrow>
   pot' = pot @ filter (\<lambda>g. length (snd g) \<noteq> 1) src"
proof (induction src arbitrary: dest pot)
  case Nil
  then show ?case by simp
next
  case (Cons g src)
  obtain k files where g: "g = (k, files)" by (cases g)
  show ?case
  proof (cases "length files = 1")
    case True
    with Cons.prems g have
      "classify_singletons src (add_unique_file_to_table (hd files) dest) pot = (dest', pot')"
      by simp
    from Cons.IH [OF this] Cons.prems(2,3) show ?thesis
      using g True by auto
  next
    case False
    from Cons.prems(3) g have fresh: "k \<notin> set (map fst pot)" by auto
    from False Cons.prems g have
      "classify_singletons src dest (extend_at k files pot) = (dest', pot')"
      by simp
    moreover have "set (map fst src) \<inter> set (map fst (extend_at k files pot)) = {}"
      using Cons.prems(2,3) g by (simp add: keys_extend_at del: set_map)
    ultimately have "pot' = extend_at k files pot @ filter (\<lambda>g. length (snd g) \<noteq> 1) src"
      using Cons.IH Cons.prems(2) by simp
    with fresh g False show ?thesis
      by (simp add: extend_at_fresh)
  qed
qed

lemma classify_singletons_handles_ordered:
  assumes "classify_singletons src dest [] = (dest', pot')" and "distinct (map fst src)"
  shows "handles pot' = ambiguous src"
  using classify_singletons_pot [OF assms(1) assms(2)] by (simp add: handles_def ambiguous_def)

text \<open>A rehash into the cleared source table that returns.\<close>

lemma rehash_level:
  assumes "rehash_groups disk sha256 pot (st\<lparr>source_table := [], destination_table := dest\<rparr>) iteration =
      (Returned, st1)"
  shows "destination_table st1 = dest"
    and "bucket k (source_table st1) =
      filter (\<lambda>f. file_key disk sha256 iteration f = Some k) (handles pot)"
    and "distinct (map fst (source_table st1))"
    and "(\<forall>g \<in> set (source_table st1). snd g \<noteq> [])"
    and "trace st1 = trace st @ map (\<lambda>f. GetHash f iteration) (handles pot)"
    and "set (handles (source_table st1)) = set (handles pot)"
proof -
  show "destination_table st1 = dest"
    using destination_table_rehash_groups [OF assms] by simp
  show "bucket k (source_table st1) =
      filter (\<lambda>f. file_key disk sha256 iteration f = Some k) (handles pot)"
    using rehash_groups_bucket [OF assms, of k] by (simp add: bucket_def)
  show "distinct (map fst (source_table st1))" "(\<forall>g \<in> set (source_table st1). snd g \<noteq> [])"
    using rehash_groups_dictionary [OF assms] by simp_all
  show "trace st1 = trace st @ map (\<lambda>f. GetHash f iteration) (handles pot)"
    using rehash_groups_Returned_trace [OF assms] by simp
  show "set (handles (source_table st1)) = set (handles pot)"
    using rehash_groups_set_handles [OF assms] by simp
qed

lemma rehash_level_group:
  assumes "rehash_groups disk sha256 pot (st\<lparr>source_table := [], destination_table := dest\<rparr>) iteration =
      (Returned, st1)"
    and "(k, grp) \<in> set (source_table st1)"
  shows "grp = filter (\<lambda>f. file_key disk sha256 iteration f = Some k) (handles pot)"
  using bucket_of_group [OF rehash_level(3) [OF assms(1)] assms(2)] rehash_level(2) [OF assms(1), of k]
  by simp

text \<open>The shapes of a run that is entered with iteration 0 and returns.\<close>

lemma returned_run_cases [consumes 1, case_names level0 level1 level2]:
  assumes "find_duplicate_files disk sha256 st 0 = (Returned, st')"
  obtains
    (level0) dest0 where
      "classify_singletons (source_table st) (destination_table st) [] = (dest0, [])"
      "st' = (entered st 0)\<lparr>destination_table := dest0\<rparr>"
  | (level1) dest0 pot0 st1 dest1 where
      "classify_singletons (source_table st) (destination_table st) [] = (dest0, pot0)"
      "pot0 \<noteq> []"
      "rehash_groups disk sha256 pot0
         ((entered st 0)\<lparr>source_table := [], destination_table := dest0\<rparr>) 0 = (Returned, st1)"
      "classify_singletons (source_table st1) (destination_table st1) [] = (dest1, [])"
      "st' = (entered st1 1)\<lparr>destination_table := dest1\<rparr>"
  | (level2) dest0 pot0 st1 dest1 pot1 st2 dest2 where
      "classify_singletons (source_table st) (destination_table st) [] = (dest0, pot0)"
      "pot0 \<noteq> []"
      "rehash_groups disk sha256 pot0
         ((entered st 0)\<lparr>source_table := [], destination_table := dest0\<rparr>) 0 = (Returned, st1)"
      "classify_singletons (source_table st1) (destination_table st1) [] = (dest1, pot1)"
      "pot1 \<noteq> []"
      "rehash_groups disk sha256 pot1
         ((entered st1 1)\<lparr>source_table := [], destination_table := dest1\<rparr>) 1 = (Returned, st2)"
      "classify_groups (source_table st2) (destination_table st2) = (Returned, dest2)"
      "st' = (entered st2 2)\<lparr>destination_table := dest2\<rparr>"
proof -
  have "(0::int) \<noteq> 2" by simp
  then show thesis
  proof (cases rule: find_duplicate_files_level_cases [of 0 st disk sha256])
    case (stop dest)
    with assms level0 show thesis by simp
  next
    case (raise dest pot e st1)
    with assms show thesis by simp
  next
    case r0: (recurse dest0 pot0 st1)
    have "(0::int) + 1 \<noteq> 2" by simp
    then show thesis
    proof (cases rule: find_duplicate_files_level_cases [of "0 + 1" st1 disk sha256])
      case (stop dest1)
      with assms r0 level1 show thesis by simp
    next
      case (raise dest pot e st2)
      with assms r0 show thesis by simp
    next
      case r1: (recurse dest1 pot1 st2)
      obtain out dest2 where c: "classify_groups (source_table st2) (destination_table st2) = (out, dest2)"
        by (cases "classify_groups (source_table st2) (destination_table st2)")
      with assms r0(4) r1(4) have "out = Returned" "st' = (entered st2 2)\<lparr>destination_table := dest2\<rparr>"
        by (simp_all add: find_duplicate_files_terminal)
      with c r0 r1 level2 show thesis by simp
    qed
  qed
qed

section \<open>From one level to the next\<close>

lemma file_key_readable:
  "disk f = Some (Readable content) \<Longrightarrow>
   file_key disk sha256 0 f = Some (Digest (sha256 (take byte_chunk content))) \<and>
   file_key disk sha256 1 f = Some (Digest (sha256 content))"
  by (simp add: file_key_def get_hash_def)

lemma two_members: "a \<in> set g \<Longrightarrow> b \<in> set g \<Longrightarrow> a \<noteq> b \<Longrightarrow> length g \<noteq> 1"
  by (cases g) auto

lemma member_ambiguous:
  "(k, files) \<in> set tbl \<Longrightarrow> length files \<noteq> 1 \<Longrightarrow> f \<in> set files \<Longrightarrow> f \<in> set (ambiguous tbl)"
  by (auto simp: set_ambiguous_iff)

lemma level_advance:
  assumes "classify_singletons src dest0 [] = (dest, pot)"
    and "rehash_groups disk sha256 pot (st\<lparr>source_table := [], destination_table := dest\<rparr>) iteration =
      (Returned, st1)"
    and "f \<in> set (ambiguous src)"
    and "file_key disk sha256 iteration f = Some k"
  shows "f \<in> set (bucket k (source_table st1))"
    and "(k, bucket k (source_table st1)) \<in> set (source_table st1)"
proof -
  from classify_singletons_set_handles [OF assms(1)] assms(3) have "f \<in> set (handles pot)"
    by simp
  with assms(4) show "f \<in> set (bucket k (source_table st1))"
    by (simp add: rehash_level(2) [OF assms(2)])
  then have "bucket k (source_table st1) \<noteq> []" by auto
  then show "(k, bucket k (source_table st1)) \<in> set (source_table st1)"
    by (rule group_of_bucket)
qed

lemma terminal_additions_first:
  "(k, g) \<in> set tbl \<Longrightarrow> g \<noteq> [] \<Longrightarrow>
   hd g \<in> set (terminal_additions (extension_label (hd g)) tbl)"
proof (induction tbl)
  case Nil
  then show ?case by simp
next
  case (Cons x tbl)
  obtain k' files where x: "x = (k', files)" by (cases x)
  show ?case
  proof (cases "(k, g) = x")
    case True
    with x Cons.prems(2) show ?thesis by (cases g) auto
  next
    case False
    with Cons x show ?thesis by auto
  qed
qed

lemma terminal_additions_others:
  "(k, g) \<in> set tbl \<Longrightarrow> set (tl g) \<subseteq> set (terminal_additions ''duplicate-files'' tbl)"
proof (induction tbl)
  case Nil
  then show ?case by simp
next
  case (Cons x tbl)
  obtain k' files where x: "x = (k', files)" by (cases x)
  show ?case
  proof (cases "(k, g) = x")
    case True
    with x show ?thesis by (auto simp: drop_Suc)
  next
    case False
    with Cons x show ?thesis by auto
  qed
qed

section \<open>The order of the files in a group\<close>

lemma ambiguous_filter:
  assumes "distinct (map fst tbl)"
    and "\<forall>g \<in> set tbl. \<forall>f \<in> set (snd g). keyf f = Some (fst g)"
    and "\<forall>f. Q f \<longrightarrow> keyf f = Some k0"
    and "length (bucket k0 tbl) \<noteq> 1"
  shows "filter Q (ambiguous tbl) = filter Q (bucket k0 tbl)"
  using assms(1,2,4)
proof (induction tbl)
  case Nil
  then show ?case by (simp add: bucket_def)
next
  case (Cons x tbl)
  obtain k g where x: "x = (k, g)" by (cases x)
  from Cons.prems(2) x have members: "\<forall>f \<in> set g. keyf f = Some k"
    and rest: "\<forall>g \<in> set tbl. \<forall>f \<in> set (snd g). keyf f = Some (fst g)"
    by auto
  from Cons.prems(1) x have fresh: "k \<notin> set (map fst tbl)" and d: "distinct (map fst tbl)"
    by auto
  show ?case
  proof (cases "k = k0")
    case True
    have "\<not> Q f" if "f \<in> set (ambiguous tbl)" for f
    proof
      assume "Q f"
      with assms(3) have "keyf f = Some k0" by blast
      moreover from that obtain k' files where
        "(k', files) \<in> set tbl" "f \<in> set files"
        by (auto simp: set_ambiguous_iff)
      with rest have "keyf f = Some k'" "k' \<in> set (map fst tbl)"
        by force+
      ultimately show False
        using fresh True by auto
    qed
    then have "filter Q (ambiguous tbl) = []"
      by (auto simp: filter_empty_conv)
    moreover from True x have "bucket k0 (x # tbl) = g"
      by (simp add: bucket_def)
    moreover from this Cons.prems(3) have "length g \<noteq> 1" by simp
    ultimately show ?thesis
      using x by simp
  next
    case False
    have "\<not> Q f" if "f \<in> set g" for f
      using members that assms(3) False by auto
    then have none: "filter Q g = []"
      by (auto simp: filter_empty_conv)
    from False x have b: "bucket k0 (x # tbl) = bucket k0 tbl"
      by (simp add: bucket_def)
    with Cons.prems(3) have "length (bucket k0 tbl) \<noteq> 1" by simp
    from Cons.IH [OF d rest this] none b x show ?thesis
      by simp
  qed
qed

lemma rehash_level_members:
  assumes "rehash_groups disk sha256 pot (st\<lparr>source_table := [], destination_table := dest\<rparr>) iteration =
      (Returned, st1)"
  shows "\<forall>g \<in> set (source_table st1). \<forall>f \<in> set (snd g).
           file_key disk sha256 iteration f = Some (fst g)"
proof (intro ballI)
  fix g f
  assume g: "g \<in> set (source_table st1)" and f: "f \<in> set (snd g)"
  from g have "(fst g, snd g) \<in> set (source_table st1)" by simp
  from rehash_level_group [OF assms this] f
  show "file_key disk sha256 iteration f = Some (fst g)" by simp
qed

lemma filter_filter_implied:
  "(\<And>x. Q x \<Longrightarrow> R x) \<Longrightarrow> filter Q (filter R xs) = filter Q xs"
  by (induction xs) auto

lemma length_filter_implied:
  "(\<And>x. Q x \<Longrightarrow> R x) \<Longrightarrow> length (filter Q xs) \<le> length (filter R xs)"
  by (induction xs) auto

lemma file_key_full_digest:
  "file_key disk sha256 1 f = Some (Digest h) \<Longrightarrow>
   \<exists>content. disk f = Some (Readable content) \<and> sha256 content = h"
  by (auto simp: file_key_def get_hash_def split: option.splits file_object.splits)

text \<open>Two disks that agree on the files of a table give the same run.\<close>

lemma rehash_and_add_to_table_agree:
  "\<forall>f \<in> set files. disk f = disk' f \<Longrightarrow>
   rehash_and_add_to_table disk' sha256 files (tbl, tr) iteration =
   rehash_and_add_to_table disk sha256 files (tbl, tr) iteration"
  by (induction files arbitrary: tbl tr) (auto split: option.splits sum.splits)

lemma rehash_groups_agree:
  "\<forall>f \<in> set (handles pot). disk f = disk' f \<Longrightarrow>
   rehash_groups disk' sha256 pot st iteration = rehash_groups disk sha256 pot st iteration"
proof (induction pot arbitrary: st)
  case Nil
  then show ?case by simp
next
  case (Cons g pot)
  obtain k files where g: "g = (k, files)" by (cases g)
  from Cons.prems g have "\<forall>f \<in> set files. disk f = disk' f"
    and rest: "\<forall>f \<in> set (handles pot). disk f = disk' f"
    by auto
  from rehash_and_add_to_table_agree [OF this(1)] Cons.IH [OF rest] g show ?case
    by (simp split: prod.splits outcome.splits)
qed

lemma find_duplicate_files_agree:
  "(\<forall>f \<in> set (handles (source_table st)). disk f = disk' f) \<longrightarrow>
   find_duplicate_files disk' sha256 st iteration = find_duplicate_files disk sha256 st iteration"
proof (induction st iteration rule: levels_induct [where disk = disk and ?sha256.0 = sha256])
  case (terminal st)
  show ?case by (simp add: find_duplicate_files_terminal)
next
  case (stop st iteration dest)
  then show ?case
    by (simp add: find_duplicate_files.simps [of disk'] Let_def entered_def)
next
  case (raise st iteration dest pot e st1)
  show ?case
  proof
    assume agree: "\<forall>f \<in> set (handles (source_table st)). disk f = disk' f"
    from classify_singletons_set_handles [OF raise(2)] set_ambiguous_handles [of "source_table st"] agree
    have "\<forall>f \<in> set (handles pot). disk f = disk' f" by blast
    from rehash_groups_agree [OF this] raise show
      "find_duplicate_files disk' sha256 st iteration = find_duplicate_files disk sha256 st iteration"
      by (simp add: find_duplicate_files.simps [of disk'] Let_def entered_def)
  qed
next
  case (recurse st iteration dest pot st1)
  show ?case
  proof
    assume agree: "\<forall>f \<in> set (handles (source_table st)). disk f = disk' f"
    from classify_singletons_set_handles [OF recurse(2)] set_ambiguous_handles [of "source_table st"] agree
    have pot: "\<forall>f \<in> set (handles pot). disk f = disk' f" by blast
    with rehash_level(6) [OF recurse(4)] have "\<forall>f \<in> set (handles (source_table st1)). disk f = disk' f"
      by simp
    with recurse(6) have
      "find_duplicate_files disk' sha256 st1 (iteration + 1) =
       find_duplicate_files disk sha256 st1 (iteration + 1)"
      by blast
    with rehash_groups_agree [OF pot] recurse(1-5) show
      "find_duplicate_files disk' sha256 st iteration = find_duplicate_files disk sha256 st iteration"
      by (simp add: find_duplicate_files.simps [of disk'] Let_def entered_def)
  qed
qed

section \<open>Runs on readable files\<close>

text \<open>
  A rehash returns when every file of its list can be hashed, and a run entered with
  iteration 0 returns when every file that stands in a group of another length than one
  is readable: both rehashes then succeed, and the table of the terminal step, filled by
  a rehash, has no empty group.
\<close>

lemma rehash_and_add_to_table_returns:
  "\<forall>f \<in> set files. file_key disk sha256 iteration f \<noteq> None \<Longrightarrow>
   fst (rehash_and_add_to_table disk sha256 files (tbl, tr) iteration) = Returned"
proof (induction files arbitrary: tbl tr)
  case Nil
  then show ?case by simp
next
  case (Cons f files)
  from Cons.prems obtain fo h where "disk f = Some fo" "get_hash sha256 fo iteration = Inr h"
    by (auto simp: file_key_def split: option.splits sum.splits)
  moreover from Cons.prems have "\<forall>f \<in> set files. file_key disk sha256 iteration f \<noteq> None"
    by simp
  ultimately show ?case
    using Cons.IH by simp
qed

lemma rehash_groups_returns:
  "\<forall>f \<in> set (handles pot). file_key disk sha256 iteration f \<noteq> None \<Longrightarrow>
   fst (rehash_groups disk sha256 pot st iteration) = Returned"
proof (induction pot arbitrary: st)
  case Nil
  then show ?case by simp
next
  case (Cons g pot)
  obtain k files where g: "g = (k, files)" by (cases g)
  from Cons.prems g have files: "\<forall>f \<in> set files. file_key disk sha256 iteration f \<noteq> None"
    and rest: "\<forall>f \<in> set (handles pot). file_key disk sha256 iteration f \<noteq> None"
    by auto
  obtain out tbl tr where r:
    "rehash_and_add_to_table disk sha256 files (source_table st, trace st) iteration = (out, tbl, tr)"
    by (metis prod_cases3)
  with rehash_and_add_to_table_returns [OF files, of "source_table st" "trace st"]
  have "out = Returned" by simp
  with r g Cons.IH [OF rest] show ?case by simp
qed

lemma file_key_readable_Some:
  "\<exists>c. disk f = Some (Readable c) \<Longrightarrow> iteration = 0 \<or> iteration = 1 \<Longrightarrow>
   file_key disk sha256 iteration f \<noteq> None"
  by (auto simp: file_key_def get_hash_def)

lemma readable_level:
  assumes readable: "\<forall>f \<in> set (ambiguous (source_table st)). \<exists>c. disk f = Some (Readable c)"
    and it: "iteration = 0 \<or> iteration = 1"
  obtains
    (stop) "fst (find_duplicate_files disk sha256 st iteration) = Returned"
  | (recurse) st1 where
      "find_duplicate_files disk sha256 st iteration =
         find_duplicate_files disk sha256 st1 (iteration + 1)"
      "set (handles (source_table st1)) \<subseteq> set (ambiguous (source_table st))"
      "\<forall>g \<in> set (source_table st1). snd g \<noteq> []"
proof -
  from it have "iteration \<noteq> 2" by auto
  then show thesis
  proof (cases rule: find_duplicate_files_level_cases [of iteration st disk sha256])
    case (stop dest)
    then have "fst (find_duplicate_files disk sha256 st iteration) = Returned" by simp
    then show thesis by (rule that(1))
  next
    case (raise dest pot e st1)
    from classify_singletons_set_handles [OF raise(1)] readable
    have "\<forall>f \<in> set (handles pot). file_key disk sha256 iteration f \<noteq> None"
      using file_key_readable_Some [OF _ it] by blast
    from rehash_groups_returns [OF this,
        of "(entered st iteration)\<lparr>source_table := [], destination_table := dest\<rparr>"] raise(3)
    have False by simp
    then show thesis ..
  next
    case (recurse dest pot st1)
    from rehash_level(6) [OF recurse(3)] classify_singletons_set_handles [OF recurse(1)]
    have "set (handles (source_table st1)) \<subseteq> set (ambiguous (source_table st))" by simp
    with recurse(4) show thesis
      using rehash_level(4) [OF recurse(3)] by (rule that(2))
  qed
qed

lemma readable_run_returns:
  assumes "\<forall>f \<in> set (ambiguous (source_table st)). \<exists>c. disk f = Some (Readable c)"
  shows "fst (find_duplicate_files disk sha256 st 0) = Returned"
proof -
  have "(0::int) = 0 \<or> (0::int) = 1" by simp
  with assms show ?thesis
  proof (cases rule: readable_level [of st disk 0 sha256])
    case stop
    then show ?thesis .
  next
    case r0: (recurse st1)
    from r0(2) set_ambiguous_handles [of "source_table st1"] assms
    have readable1: "\<forall>f \<in> set (ambiguous (source_table st1)). \<exists>c. disk f = Some (Readable c)"
      by blast
    have "(0::int) + 1 = 0 \<or> (0::int) + 1 = 1" by simp
    with readable1 show ?thesis
    proof (cases rule: readable_level [of st1 disk "0 + 1" sha256])
      case stop
      with r0(1) show ?thesis by simp
    next
      case r1: (recurse st2)
      from r1(3) have "[] \<notin> set (map snd (source_table st2))" by auto
      with classify_groups_Returned_iff [of "source_table st2" "destination_table st2"]
      have "fst (find_duplicate_files disk sha256 st2 2) = Returned"
        by (cases "classify_groups (source_table st2) (destination_table st2)")
          (simp add: find_duplicate_files_terminal)
      with r0(1) r1(1) show ?thesis by simp
    qed
  qed
qed

section \<open>Conservation\<close>

text \<open>
  Claim C1. When \<open>find_duplicate_files\<close> returns, the destination table holds the handles
  it held before together with every handle of the source table, each as often as it
  occurred: no handle is dropped and none is added, so the total count of handles in the
  buckets of the classification is the count of the input (plus what the destination held
  at the start, nothing for the empty table that \<open>main\<close> passes). Likewise a pass of
  \<open>rehash_and_add_to_table\<close> that returns has put every file of its list into the table
  exactly once.
\<close>

theorem conservation:
  "(find_duplicate_files disk sha256 st 0 = (Returned, st') \<longrightarrow>
      mset (handles (destination_table st')) =
        mset (handles (destination_table st)) + mset (handles (source_table st)) \<and>
      length (handles (destination_table st')) =
        length (handles (destination_table st)) + length (handles (source_table st))) \<and>
   (rehash_and_add_to_table disk sha256 files (tbl, tr) iteration = (Returned, tbl', tr') \<longrightarrow>
      mset (handles tbl') = mset (handles tbl) + mset files \<and>
      length (handles tbl') = length (handles tbl) + length files)"
proof (intro conjI impI)
  assume run: "find_duplicate_files disk sha256 st 0 = (Returned, st')"
  from mset_handles_find_duplicate_files [OF run]
  show m: "mset (handles (destination_table st')) =
        mset (handles (destination_table st)) + mset (handles (source_table st))" .
  from arg_cong [OF m, of size]
  show "length (handles (destination_table st')) =
        length (handles (destination_table st)) + length (handles (source_table st))"
    by simp
next
  assume pass: "rehash_and_add_to_table disk sha256 files (tbl, tr) iteration = (Returned, tbl', tr')"
  from mset_handles_rehash_and_add_to_table [OF pass]
  show m: "mset (handles tbl') = mset (handles tbl) + mset files" .
  from arg_cong [OF m, of size]
  show "length (handles tbl') = length (handles tbl) + length files"
    by simp
qed

theorem conservation_witness:
  "find_duplicate_files (scenario_disk ''0123456789'' ''9876543210'' ''01234567890123456789'') id
     scenario_state 0 = (Returned, scenario_final) \<and>
   length (handles (destination_table scenario_final)) = 4 \<and>
   rehash_and_add_to_table (scenario_disk ''0123456789'' ''9876543210'' ''01234567890123456789'') id
     [''a.txt'', ''b.txt'', ''c.txt''] ([], []) 0 =
     (Returned,
      [(Digest ''0123456789'', [''a.txt'', ''b.txt'']), (Digest ''9876543210'', [''c.txt''])],
      [GetHash ''a.txt'' 0, GetHash ''b.txt'' 0, GetHash ''c.txt'' 0]) \<and>
   length (handles [(Digest ''0123456789'', [''a.txt'', ''b.txt'']), (Digest ''9876543210'', [''c.txt''])]) = 3"
proof -
  have pass: "rehash_and_add_to_table
      (scenario_disk ''0123456789'' ''9876543210'' ''01234567890123456789'') id
      [''a.txt'', ''b.txt'', ''c.txt''] ([], []) 0 =
     (Returned,
      [(Digest ''0123456789'', [''a.txt'', ''b.txt'']), (Digest ''9876543210'', [''c.txt''])],
      [GetHash ''a.txt'' 0, GetHash ''b.txt'' 0, GetHash ''c.txt'' 0])"
    by (simp add: run_simps scenario_disk_def)
  from conservation [of "scenario_disk ''0123456789'' ''9876543210'' ''01234567890123456789''" id
      scenario_state scenario_final "[''a.txt'', ''b.txt'', ''c.txt'']" "[]" "[]" 0
      "[(Digest ''0123456789'', [''a.txt'', ''b.txt'']), (Digest ''9876543210'', [''c.txt''])]"
      "[GetHash ''a.txt'' 0, GetHash ''b.txt'' 0, GetHash ''c.txt'' 0]"]
    scenario_run pass
  show ?thesis
    by (simp add: scenario_state_def)
qed

section \<open>Bounded refinement\<close>

text \<open>
  Claim C2. \<open>find_duplicate_files\<close> is a total function: its recursion ends for every
  state (the termination proof above). Entered with iteration 0 it is entered at most
  three times, with the iterations 0, then 1, then 2, whatever the input. Entered with
  iteration 2 it classifies the groups and returns: it makes no further call and hashes
  nothing (its only trace is its own entry), it leaves the source table as it is, whether
  or not a group has several members, and it fails only on an empty group; when it
  returns, every handle of the source table has been added to the destination table.
\<close>

theorem bounded_levels:
  "calls (trace (snd (find_duplicate_files disk sha256 st 0))) \<in>
     {calls (trace st) @ [0], calls (trace st) @ [0, 1], calls (trace st) @ [0, 1, 2]} \<and>
   trace (snd (find_duplicate_files disk sha256 st 2)) =
     trace st @ [Call 2 (source_table st) (destination_table st)] \<and>
   source_table (snd (find_duplicate_files disk sha256 st 2)) = source_table st \<and>
   (fst (find_duplicate_files disk sha256 st 2) = Returned) = ([] \<notin> set (map snd (source_table st))) \<and>
   (fst (find_duplicate_files disk sha256 st 2) = Returned \<longrightarrow>
      mset (handles (destination_table (snd (find_duplicate_files disk sha256 st 2)))) =
        mset (handles (destination_table st)) + mset (handles (source_table st)))"
proof (intro conjI impI)
  let ?c = "calls (trace st)"
  show "calls (trace (snd (find_duplicate_files disk sha256 st 0))) \<in>
     {?c @ [0], ?c @ [0, 1], ?c @ [0, 1, 2]}"
  proof -
    from level_calls [of 0 disk sha256 st] consider
        "calls (trace (snd (find_duplicate_files disk sha256 st 0))) = ?c @ [0]"
      | st1 where "find_duplicate_files disk sha256 st 0 = find_duplicate_files disk sha256 st1 1"
          "calls (trace st1) = ?c @ [0]"
      by auto
    then show ?thesis
    proof cases
      case 1
      then show ?thesis by simp
    next
      case 2
      from level_calls [of 1 disk sha256 st1] consider
          "calls (trace (snd (find_duplicate_files disk sha256 st1 1))) = calls (trace st1) @ [1]"
        | st2 where "find_duplicate_files disk sha256 st1 1 = find_duplicate_files disk sha256 st2 2"
            "calls (trace st2) = calls (trace st1) @ [1]"
        by auto
      then show ?thesis
      proof cases
        case 1
        with 2 show ?thesis by simp
      next
        case st2: 2
        have "calls (trace (snd (find_duplicate_files disk sha256 st2 2))) = calls (trace st2) @ [2]"
          by (simp add: terminal_trace)
        with 2 st2 show ?thesis by simp
      qed
    qed
  qed
next
  show "trace (snd (find_duplicate_files disk sha256 st 2)) =
     trace st @ [Call 2 (source_table st) (destination_table st)]"
    by (rule terminal_trace)
next
  show "source_table (snd (find_duplicate_files disk sha256 st 2)) = source_table st"
    by (simp add: find_duplicate_files_terminal split: prod.splits)
next
  show "(fst (find_duplicate_files disk sha256 st 2) = Returned) =
      ([] \<notin> set (map snd (source_table st)))"
    using classify_groups_Returned_iff [of "source_table st" "destination_table st"]
    by (cases "classify_groups (source_table st) (destination_table st)")
      (simp add: find_duplicate_files_terminal)
next
  assume "fst (find_duplicate_files disk sha256 st 2) = Returned"
  then have "find_duplicate_files disk sha256 st 2 =
      (Returned, snd (find_duplicate_files disk sha256 st 2))"
    by (metis prod.collapse)
  then show "mset (handles (destination_table (snd (find_duplicate_files disk sha256 st 2)))) =
        mset (handles (destination_table st)) + mset (handles (source_table st))"
    by (rule mset_handles_find_duplicate_files)
qed

theorem bounded_levels_witness:
  "fst (find_duplicate_files (\<lambda>f. None) id
      \<lparr>source_table = [(Digest ''0123456789'', [''a.txt'', ''b.txt''])],
       destination_table = [(''log-files'', [''d.log'']), (''txt-files'', [''c.txt''])],
       trace = []\<rparr> 2) = Returned \<and>
   mset (handles (destination_table (snd (find_duplicate_files (\<lambda>f. None) id
      \<lparr>source_table = [(Digest ''0123456789'', [''a.txt'', ''b.txt''])],
       destination_table = [(''log-files'', [''d.log'']), (''txt-files'', [''c.txt''])],
       trace = []\<rparr> 2)))) =
     {#''d.log'', ''c.txt'', ''a.txt'', ''b.txt''#}"
proof -
  have r: "fst (find_duplicate_files (\<lambda>f. None) id
      \<lparr>source_table = [(Digest ''0123456789'', [''a.txt'', ''b.txt''])],
       destination_table = [(''log-files'', [''d.log'']), (''txt-files'', [''c.txt''])],
       trace = []\<rparr> 2) = Returned"
    by (simp add: find_duplicate_files_terminal)
  with bounded_levels [of "\<lambda>f. None" id
      "\<lparr>source_table = [(Digest ''0123456789'', [''a.txt'', ''b.txt''])],
       destination_table = [(''log-files'', [''d.log'']), (''txt-files'', [''c.txt''])],
       trace = []\<rparr>"]
  show ?thesis by simp
qed

section \<open>Singleton promotion\<close>

text \<open>
  Claim C3. At a level that refines (any iteration but 2; iteration 0 is the level of the
  size groups, iteration 1 that of the partial-digest groups), a file that is alone in
  its group, and is listed in no group of several files, is in the bucket of its
  extension label when \<open>find_duplicate_files\<close> is left, however the run ends, and no
  call of \<open>get_hash\<close> is made for it at this level or after it: the calls of \<open>get_hash\<close>
  for the file are those made before. So a file of unique size is never hashed, and a
  file alone in its partial-digest group is not hashed for the full digest.
\<close>

theorem singleton_promotion:
  assumes "iteration \<noteq> 2"
    and "(k, [file]) \<in> set (source_table st)"
    and "file \<notin> set (ambiguous (source_table st))"
  shows "file \<in> set (bucket (extension_label file)
            (destination_table (snd (find_duplicate_files disk sha256 st iteration)))) \<and>
         filter (\<lambda>h. fst h = file)
            (hashed (trace (snd (find_duplicate_files disk sha256 st iteration)))) =
         filter (\<lambda>h. fst h = file) (hashed (trace st))"
proof
  from assms(2) have s: "file \<in> set (singletons (source_table st))"
    by (auto simp: set_singletons_iff)
  let ?label = "extension_label file"
  show "file \<in> set (bucket ?label
      (destination_table (snd (find_duplicate_files disk sha256 st iteration))))"
    using assms(1)
  proof (cases rule: find_duplicate_files_level_cases [of iteration st disk sha256])
    case (stop dest)
    from classify_singletons_bucket [OF stop(1), of ?label] s stop(2)
    show ?thesis by simp
  next
    case (raise dest pot e st1)
    from classify_singletons_bucket [OF raise(1), of ?label] s
      destination_table_rehash_groups [OF raise(3)] raise(4)
    show ?thesis by simp
  next
    case (recurse dest pot st1)
    from classify_singletons_bucket [OF recurse(1), of ?label] s
      destination_table_rehash_groups [OF recurse(3)]
    have "file \<in> set (bucket ?label (destination_table st1))"
      by simp
    moreover from find_duplicate_files_bucket_grows [of ?label disk sha256 st1 "iteration + 1"]
    obtain more where
      "bucket ?label (destination_table (snd (find_duplicate_files disk sha256 st1 (iteration + 1)))) =
       bucket ?label (destination_table st1) @ more"
      by blast
    ultimately show ?thesis
      using recurse(4) by simp
  qed
next
  from find_duplicate_files_hashed [of disk sha256 st iteration] obtain new where
    new: "hashed (trace (snd (find_duplicate_files disk sha256 st iteration))) = hashed (trace st) @ new"
      "fst ` set new \<subseteq> set (ambiguous (source_table st))"
    by blast
  from new(2) assms(3) have "filter (\<lambda>h. fst h = file) new = []"
    by (auto simp: filter_empty_conv)
  with new(1) show "filter (\<lambda>h. fst h = file)
      (hashed (trace (snd (find_duplicate_files disk sha256 st iteration)))) =
    filter (\<lambda>h. fst h = file) (hashed (trace st))"
    by simp
qed


theorem singleton_promotion_witness:
  "''d.log'' \<in> set (bucket ''log-files'' (destination_table scenario_final)) \<and>
   filter (\<lambda>h. fst h = ''d.log'') (hashed (trace scenario_final)) = []"
proof -
  have h: "(0::int) \<noteq> 2" "(Size 20, [''d.log'']) \<in> set (source_table scenario_state)"
    "''d.log'' \<notin> set (ambiguous (source_table scenario_state))"
    by (simp_all add: scenario_state_def)
  have l: "extension_label ''d.log'' = ''log-files''"
    by (simp add: run_simps)
  from singleton_promotion [OF h,
      of "scenario_disk ''0123456789'' ''9876543210'' ''01234567890123456789''" id]
  show ?thesis
    unfolding scenario_run l by (simp add: scenario_state_def)
qed

section \<open>Duplicate symmetry and the terminal step\<close>

text \<open>
  What a run that returns has done with two files of one group that have the same content.
\<close>

lemma same_group_of_returned_run:
  assumes "find_duplicate_files disk sha256 st 0 = (Returned, st')"
    and "(k, files) \<in> set (source_table st)"
    and "a \<in> set files" and "b \<in> set files" and "a \<noteq> b"
    and "disk a = Some (Readable content)" and "disk b = Some (Readable content)"
  shows "(\<exists>tr tbl dest grp.
            trace st' = trace st @ tr @ [Call 2 tbl dest] \<and>
            (Digest (sha256 content), grp) \<in> set tbl \<and> a \<in> set grp \<and> b \<in> set grp \<and>
            hd grp \<in> set (bucket (extension_label (hd grp)) (destination_table st')) \<and>
            set (tl grp) \<subseteq> set (bucket ''duplicate-files'' (destination_table st'))) \<and>
         (a \<in> set (bucket ''duplicate-files'' (destination_table st')) \<or>
          b \<in> set (bucket ''duplicate-files'' (destination_table st'))) \<and>
         (\<forall>st2. [] \<notin> set (map snd (source_table st2)) \<longrightarrow>
            fst (find_duplicate_files disk sha256 st2 2) = Returned \<and>
            (\<forall>label. bucket label (destination_table (snd (find_duplicate_files disk sha256 st2 2))) =
               bucket label (destination_table st2) @ terminal_additions label (source_table st2)))"
proof (intro conjI allI impI)
  fix st2 :: state and label :: string
  assume ne: "[] \<notin> set (map snd (source_table st2))"
  obtain out dest where c: "classify_groups (source_table st2) (destination_table st2) = (out, dest)"
    by (cases "classify_groups (source_table st2) (destination_table st2)")
  with classify_groups_Returned_iff [of "source_table st2" "destination_table st2"] ne
  have out: "out = Returned" by simp
  with c show "fst (find_duplicate_files disk sha256 st2 2) = Returned"
    by (simp add: find_duplicate_files_terminal)
  from classify_groups_bucket [OF c [unfolded out], of label] c
  show "bucket label (destination_table (snd (find_duplicate_files disk sha256 st2 2))) =
      bucket label (destination_table st2) @ terminal_additions label (source_table st2)"
    by (simp add: find_duplicate_files_terminal)
next
  let ?dup = "''duplicate-files''"
  let ?K = "Digest (sha256 content)"
  let ?P = "Digest (sha256 (take byte_chunk content))"
  from assms(2-5) have amb: "a \<in> set (ambiguous (source_table st))" "b \<in> set (ambiguous (source_table st))"
    by (auto intro: member_ambiguous dest: two_members)
  note ka = file_key_readable [of disk a content sha256, OF assms(6)]
  note kb = file_key_readable [of disk b content sha256, OF assms(7)]
  have main: "\<exists>tr tbl dest grp.
      trace st' = trace st @ tr @ [Call 2 tbl dest] \<and>
      (?K, grp) \<in> set tbl \<and> a \<in> set grp \<and> b \<in> set grp \<and>
      hd grp \<in> set (bucket (extension_label (hd grp)) (destination_table st')) \<and>
      set (tl grp) \<subseteq> set (bucket ?dup (destination_table st'))"
    using assms(1)
  proof (cases rule: returned_run_cases)
    case (level0 dest0)
    from classify_singletons_set_handles [OF level0(1)] amb(1) show ?thesis by simp
  next
    case (level1 dest0 pot0 st1 dest1)
    from level_advance [OF level1(1) level1(3) amb(1)] ka
    have a1: "a \<in> set (bucket ?P (source_table st1))"
      "(?P, bucket ?P (source_table st1)) \<in> set (source_table st1)"
      by simp_all
    from level_advance [OF level1(1) level1(3) amb(2)] kb
    have b1: "b \<in> set (bucket ?P (source_table st1))" by simp
    from a1 b1 assms(5) have "a \<in> set (ambiguous (source_table st1))"
      by (auto intro: member_ambiguous dest: two_members)
    with classify_singletons_set_handles [OF level1(4)] show ?thesis by simp
  next
    case (level2 dest0 pot0 st1 dest1 pot1 st2 dest2)
    from level_advance [OF level2(1) level2(3) amb(1)] ka
    have a1: "a \<in> set (bucket ?P (source_table st1))"
      "(?P, bucket ?P (source_table st1)) \<in> set (source_table st1)"
      by simp_all
    from level_advance [OF level2(1) level2(3) amb(2)] kb
    have b1: "b \<in> set (bucket ?P (source_table st1))" by simp
    from a1 b1 assms(5) have amb1:
      "a \<in> set (ambiguous (source_table st1))" "b \<in> set (ambiguous (source_table st1))"
      by (auto intro: member_ambiguous dest: two_members)
    let ?G = "bucket ?K (source_table st2)"
    from level_advance [OF level2(4) level2(6) amb1(1)] ka
    have a2: "a \<in> set ?G" "(?K, ?G) \<in> set (source_table st2)"
      by simp_all
    from level_advance [OF level2(4) level2(6) amb1(2)] kb
    have b2: "b \<in> set ?G" by simp
    from a2(1) have ne: "?G \<noteq> []" by auto
    have tr: "trace st' = trace st @
        ([Call 0 (source_table st) (destination_table st)] @
         map (\<lambda>f. GetHash f 0) (handles pot0) @
         [Call 1 (source_table st1) (destination_table st1)] @
         map (\<lambda>f. GetHash f 1) (handles pot1)) @
        [Call 2 (source_table st2) (destination_table st2)]"
      using level2(8) rehash_level(5) [OF level2(3)] rehash_level(5) [OF level2(6)]
      by simp
    have dest: "bucket label (destination_table st') =
        bucket label (destination_table st2) @ terminal_additions label (source_table st2)" for label
      using classify_groups_bucket [OF level2(7), of label] level2(8) by simp
    have "hd ?G \<in> set (bucket (extension_label (hd ?G)) (destination_table st'))"
      using terminal_additions_first [OF a2(2) ne] by (simp add: dest)
    moreover have "set (tl ?G) \<subseteq> set (bucket ?dup (destination_table st'))"
      using terminal_additions_others [OF a2(2)] by (auto simp: dest)
    ultimately show ?thesis
      using tr a2 b2 by blast
  qed
  then show "\<exists>tr tbl dest grp.
      trace st' = trace st @ tr @ [Call 2 tbl dest] \<and>
      (?K, grp) \<in> set tbl \<and> a \<in> set grp \<and> b \<in> set grp \<and>
      hd grp \<in> set (bucket (extension_label (hd grp)) (destination_table st')) \<and>
      set (tl grp) \<subseteq> set (bucket ?dup (destination_table st'))" .
  from main obtain grp where g: "a \<in> set grp" "b \<in> set grp"
    "set (tl grp) \<subseteq> set (bucket ?dup (destination_table st'))"
    by blast
  from g(1,2) assms(5) have "a \<in> set (tl grp) \<or> b \<in> set (tl grp)"
    by (cases grp) auto
  with g(3) show "a \<in> set (bucket ?dup (destination_table st')) \<or>
      b \<in> set (bucket ?dup (destination_table st'))"
    by blast
qed

text \<open>
  Claim C4. Let every file that stands in a group of several files be readable (the
  files that stand alone in their group are never opened), and let two different files
  of one group of the input have the same content. Then the run returns; it enters
  iteration 2, and in the table it enters with the two files stand in one group, the one
  keyed by the full digest of their content. Of that group the first member is in the
  bucket of its extension label at the end and every other member is in
  \<open>duplicate-files\<close>, so at least one of the two files is. The terminal step does this
  for every group: entered with iteration 2 and a table without an empty group,
  \<open>find_duplicate_files\<close> returns, and each bucket then holds what it held before
  followed by \<open>terminal_additions\<close>: group by group, the first member under its
  extension label and the other members under \<open>duplicate-files\<close>, and nothing else.
\<close>

theorem duplicate_symmetry:
  assumes "\<forall>f \<in> set (ambiguous (source_table st)). \<exists>c. disk f = Some (Readable c)"
    and "(k, files) \<in> set (source_table st)"
    and "a \<in> set files" and "b \<in> set files" and "a \<noteq> b"
    and "disk a = Some (Readable content)" and "disk b = Some (Readable content)"
  shows "(\<exists>st'. find_duplicate_files disk sha256 st 0 = (Returned, st') \<and>
            (\<exists>tr tbl dest grp.
               trace st' = trace st @ tr @ [Call 2 tbl dest] \<and>
               (Digest (sha256 content), grp) \<in> set tbl \<and> a \<in> set grp \<and> b \<in> set grp \<and>
               hd grp \<in> set (bucket (extension_label (hd grp)) (destination_table st')) \<and>
               set (tl grp) \<subseteq> set (bucket ''duplicate-files'' (destination_table st'))) \<and>
            (a \<in> set (bucket ''duplicate-files'' (destination_table st')) \<or>
             b \<in> set (bucket ''duplicate-files'' (destination_table st')))) \<and>
         (\<forall>st2. [] \<notin> set (map snd (source_table st2)) \<longrightarrow>
            fst (find_duplicate_files disk sha256 st2 2) = Returned \<and>
            (\<forall>label. bucket label (destination_table (snd (find_duplicate_files disk sha256 st2 2))) =
               bucket label (destination_table st2) @ terminal_additions label (source_table st2)))"
proof -
  let ?st' = "snd (find_duplicate_files disk sha256 st 0)"
  from readable_run_returns [OF assms(1), of sha256]
  have run: "find_duplicate_files disk sha256 st 0 = (Returned, ?st')"
    by (simp add: prod_eq_iff)
  note t = same_group_of_returned_run [OF run assms(2-7)]
  from t have "\<exists>tr tbl dest grp.
      trace ?st' = trace st @ tr @ [Call 2 tbl dest] \<and>
      (Digest (sha256 content), grp) \<in> set tbl \<and> a \<in> set grp \<and> b \<in> set grp \<and>
      hd grp \<in> set (bucket (extension_label (hd grp)) (destination_table ?st')) \<and>
      set (tl grp) \<subseteq> set (bucket ''duplicate-files'' (destination_table ?st'))"
    by (rule conjunct1)
  moreover from t have "a \<in> set (bucket ''duplicate-files'' (destination_table ?st')) \<or>
      b \<in> set (bucket ''duplicate-files'' (destination_table ?st'))"
    by (rule conjunct1 [OF conjunct2])
  ultimately have first: "\<exists>st'. find_duplicate_files disk sha256 st 0 = (Returned, st') \<and>
      (\<exists>tr tbl dest grp.
         trace st' = trace st @ tr @ [Call 2 tbl dest] \<and>
         (Digest (sha256 content), grp) \<in> set tbl \<and> a \<in> set grp \<and> b \<in> set grp \<and>
         hd grp \<in> set (bucket (extension_label (hd grp)) (destination_table st')) \<and>
         set (tl grp) \<subseteq> set (bucket ''duplicate-files'' (destination_table st'))) \<and>
      (a \<in> set (bucket ''duplicate-files'' (destination_table st')) \<or>
       b \<in> set (bucket ''duplicate-files'' (destination_table st')))"
    using run by (intro exI [of _ ?st'] conjI)
  from t have "\<forall>st2. [] \<notin> set (map snd (source_table st2)) \<longrightarrow>
      fst (find_duplicate_files disk sha256 st2 2) = Returned \<and>
      (\<forall>label. bucket label (destination_table (snd (find_duplicate_files disk sha256 st2 2))) =
         bucket label (destination_table st2) @ terminal_additions label (source_table st2))"
    by (rule conjunct2 [OF conjunct2])
  with first show ?thesis by (rule conjI)
qed

theorem duplicate_symmetry_witness:
  "fst (find_duplicate_files pooled_disk id pooled_state 0) = Returned \<and>
   (\<exists>tr tbl dest grp.
      trace (snd (find_duplicate_files pooled_disk id pooled_state 0)) =
        trace pooled_state @ tr @ [Call 2 tbl dest] \<and>
      (Digest pooled_a, grp) \<in> set tbl \<and> ''a.bin'' \<in> set grp \<and> ''a2.bin'' \<in> set grp \<and>
      hd grp \<in> set (bucket (extension_label (hd grp))
        (destination_table (snd (find_duplicate_files pooled_disk id pooled_state 0)))) \<and>
      set (tl grp) \<subseteq> set (bucket ''duplicate-files''
        (destination_table (snd (find_duplicate_files pooled_disk id pooled_state 0))))) \<and>
   fst (find_duplicate_files pooled_disk id
      \<lparr>source_table = [(Digest ''0123456789'', [''a.txt'', ''b.txt''])], destination_table = [],
       trace = []\<rparr> 2) = Returned"
proof -
  have readable: "\<forall>f \<in> set (ambiguous (source_table pooled_state)).
      \<exists>c. pooled_disk f = Some (Readable c)"
    by (simp add: pooled_state_def pooled_disk_def)
  have h: "(Size 1025, [''a.bin'', ''a2.bin'']) \<in> set (source_table pooled_state)"
    "''a.bin'' \<in> set [''a.bin'', ''a2.bin'']"
    "''a2.bin'' \<in> set [''a.bin'', ''a2.bin'']"
    "''a.bin'' \<noteq> ''a2.bin''"
    "pooled_disk ''a.bin'' = Some (Readable pooled_a)"
    "pooled_disk ''a2.bin'' = Some (Readable pooled_a)"
    by (simp_all add: pooled_state_def pooled_disk_def)
  have ne: "[] \<notin> set (map snd (source_table
      \<lparr>source_table = [(Digest ''0123456789'', [''a.txt'', ''b.txt''])], destination_table = [],
       trace = []\<rparr>))"
    by simp
  note t = duplicate_symmetry [OF readable h, of id]
  from t obtain st' where run: "find_duplicate_files pooled_disk id pooled_state 0 = (Returned, st')"
    and grp: "\<exists>tr tbl dest grp.
      trace st' = trace pooled_state @ tr @ [Call 2 tbl dest] \<and>
      (Digest (id pooled_a), grp) \<in> set tbl \<and> ''a.bin'' \<in> set grp \<and> ''a2.bin'' \<in> set grp \<and>
      hd grp \<in> set (bucket (extension_label (hd grp)) (destination_table st')) \<and>
      set (tl grp) \<subseteq> set (bucket ''duplicate-files'' (destination_table st'))"
    by blast
  from run have st': "st' = snd (find_duplicate_files pooled_disk id pooled_state 0)"
    and ret: "fst (find_duplicate_files pooled_disk id pooled_state 0) = Returned"
    by simp_all
  from grp have "\<exists>tr tbl dest grp.
      trace (snd (find_duplicate_files pooled_disk id pooled_state 0)) =
        trace pooled_state @ tr @ [Call 2 tbl dest] \<and>
      (Digest pooled_a, grp) \<in> set tbl \<and> ''a.bin'' \<in> set grp \<and> ''a2.bin'' \<in> set grp \<and>
      hd grp \<in> set (bucket (extension_label (hd grp))
        (destination_table (snd (find_duplicate_files pooled_disk id pooled_state 0)))) \<and>
      set (tl grp) \<subseteq> set (bucket ''duplicate-files''
        (destination_table (snd (find_duplicate_files pooled_disk id pooled_state 0))))"
    unfolding st' by simp
  moreover from t ne have
    "fst (find_duplicate_files pooled_disk id
      \<lparr>source_table = [(Digest ''0123456789'', [''a.txt'', ''b.txt''])], destination_table = [],
       trace = []\<rparr> 2) = Returned"
    by blast
  ultimately show ?thesis
    using ret by blast
qed

section \<open>The survivor of a set of duplicates\<close>

text \<open>
  Claim C5. The classification is a function of the input alone: two runs on the same
  tables, with disks that agree on the files listed in the source table, give the same
  outcome and the same final state. And the survivor is the first file in input order:
  take a content, and the files with that content among the files in groups of several
  files, in the order of the source table (a dictionary, so without a key twice). When
  there are several such files, no listed file with another content has the same full
  digest, and the run returns, then these files, in this order, are the group under the
  full digest of the content in the table with which iteration 2 is entered; the first
  of them ends in the bucket of its extension label and all the others end in
  \<open>duplicate-files\<close>.
\<close>

theorem deterministic_survivor:
  "((\<forall>f \<in> set (handles (source_table st)). disk f = disk' f) \<longrightarrow>
      find_duplicate_files disk' sha256 st 0 = find_duplicate_files disk sha256 st 0) \<and>
   (find_duplicate_files disk sha256 st 0 = (Returned, st') \<and>
    distinct (map fst (source_table st)) \<and>
    (\<forall>f c. f \<in> set (handles (source_table st)) \<and> disk f = Some (Readable c) \<and>
       sha256 c = sha256 content \<longrightarrow> c = content) \<and>
    1 < length (same_content disk content (source_table st)) \<longrightarrow>
      (\<exists>tr tbl dest.
         trace st' = trace st @ tr @ [Call 2 tbl dest] \<and>
         (Digest (sha256 content), same_content disk content (source_table st)) \<in> set tbl \<and>
         hd (same_content disk content (source_table st)) \<in>
           set (bucket (extension_label (hd (same_content disk content (source_table st))))
                 (destination_table st')) \<and>
         set (tl (same_content disk content (source_table st))) \<subseteq>
           set (bucket ''duplicate-files'' (destination_table st'))))"
proof (intro conjI impI)
  assume "\<forall>f \<in> set (handles (source_table st)). disk f = disk' f"
  with find_duplicate_files_agree [of st disk disk' sha256 0]
  show "find_duplicate_files disk' sha256 st 0 = find_duplicate_files disk sha256 st 0"
    by blast
next
  let ?dup = "''duplicate-files''"
  let ?Q = "\<lambda>f. disk f = Some (Readable content)"
  let ?P = "Digest (sha256 (take byte_chunk content))"
  let ?K = "Digest (sha256 content)"
  let ?D = "same_content disk content (source_table st)"
  assume a: "find_duplicate_files disk sha256 st 0 = (Returned, st') \<and>
    distinct (map fst (source_table st)) \<and>
    (\<forall>f c. f \<in> set (handles (source_table st)) \<and> disk f = Some (Readable c) \<and>
       sha256 c = sha256 content \<longrightarrow> c = content) \<and>
    1 < length ?D"
  then have run: "find_duplicate_files disk sha256 st 0 = (Returned, st')"
    and dk: "distinct (map fst (source_table st))"
    and nc: "\<And>f c. f \<in> set (handles (source_table st)) \<Longrightarrow> disk f = Some (Readable c) \<Longrightarrow>
       sha256 c = sha256 content \<Longrightarrow> c = content"
    and len: "1 < length ?D"
    by blast+
  have D: "?D = filter ?Q (ambiguous (source_table st))"
    by (simp add: same_content_def)
  have q0: "file_key disk sha256 0 f = Some ?P" if "?Q f" for f
    using file_key_readable [of disk f content sha256] that by simp
  have q1: "file_key disk sha256 1 f = Some ?K" if "?Q f" for f
    using file_key_readable [of disk f content sha256] that by simp
  from run show "\<exists>tr tbl dest.
      trace st' = trace st @ tr @ [Call 2 tbl dest] \<and> (?K, ?D) \<in> set tbl \<and>
      hd ?D \<in> set (bucket (extension_label (hd ?D)) (destination_table st')) \<and>
      set (tl ?D) \<subseteq> set (bucket ?dup (destination_table st'))"
  proof (cases rule: returned_run_cases)
    case (level0 dest0)
    from classify_singletons_set_handles [OF level0(1)] have "ambiguous (source_table st) = []"
      by simp
    with len D show ?thesis by simp
  next
    case (level1 dest0 pot0 st1 dest1)
    let ?T1 = "source_table st1"
    have pot0: "handles pot0 = ambiguous (source_table st)"
      using classify_singletons_handles_ordered [OF level1(1) dk] .
    have G1: "bucket ?P ?T1 = filter (\<lambda>f. file_key disk sha256 0 f = Some ?P) (ambiguous (source_table st))"
      using rehash_level(2) [OF level1(3), of ?P] pot0 by simp
    have "length ?D \<le> length (bucket ?P ?T1)"
      unfolding D G1 by (rule length_filter_implied) (rule q0)
    with len have l1: "length (bucket ?P ?T1) \<noteq> 1" by simp
    have "filter ?Q (ambiguous ?T1) = filter ?Q (bucket ?P ?T1)"
      using rehash_level(3) [OF level1(3)] rehash_level_members [OF level1(3)] _ l1
      by (rule ambiguous_filter) (simp add: q0)
    also have "\<dots> = ?D"
      unfolding D G1 by (rule filter_filter_implied) (rule q0)
    finally have "filter ?Q (ambiguous ?T1) = ?D" .
    moreover from classify_singletons_set_handles [OF level1(4)] have "ambiguous ?T1 = []"
      by simp
    ultimately show ?thesis using len by simp
  next
    case (level2 dest0 pot0 st1 dest1 pot1 st2 dest2)
    let ?T1 = "source_table st1"
    let ?T2 = "source_table st2"
    have pot0: "handles pot0 = ambiguous (source_table st)"
      using classify_singletons_handles_ordered [OF level2(1) dk] .
    have G1: "bucket ?P ?T1 = filter (\<lambda>f. file_key disk sha256 0 f = Some ?P) (ambiguous (source_table st))"
      using rehash_level(2) [OF level2(3), of ?P] pot0 by simp
    have "length ?D \<le> length (bucket ?P ?T1)"
      unfolding D G1 by (rule length_filter_implied) (rule q0)
    with len have l1: "length (bucket ?P ?T1) \<noteq> 1" by simp
    have "filter ?Q (ambiguous ?T1) = filter ?Q (bucket ?P ?T1)"
      using rehash_level(3) [OF level2(3)] rehash_level_members [OF level2(3)] _ l1
      by (rule ambiguous_filter) (simp add: q0)
    also have "\<dots> = ?D"
      unfolding D G1 by (rule filter_filter_implied) (rule q0)
    finally have A1: "filter ?Q (ambiguous ?T1) = ?D" .
    have pot1: "handles pot1 = ambiguous ?T1"
      using classify_singletons_handles_ordered [OF level2(4) rehash_level(3) [OF level2(3)]] .
    have listed: "f \<in> set (handles (source_table st))" if "f \<in> set (ambiguous ?T1)" for f
    proof -
      from that set_ambiguous_handles [of ?T1] have "f \<in> set (handles ?T1)" by blast
      with rehash_level(6) [OF level2(3)] pot0 have "f \<in> set (ambiguous (source_table st))"
        by simp
      with set_ambiguous_handles [of "source_table st"] show ?thesis by blast
    qed
    have "bucket ?K ?T2 = filter (\<lambda>f. file_key disk sha256 1 f = Some ?K) (ambiguous ?T1)"
      using rehash_level(2) [OF level2(6), of ?K] pot1 by simp
    also have "\<dots> = filter ?Q (ambiguous ?T1)"
    proof (rule filter_cong [OF refl])
      fix f
      assume f: "f \<in> set (ambiguous ?T1)"
      show "(file_key disk sha256 1 f = Some ?K) = ?Q f"
      proof
        assume "file_key disk sha256 1 f = Some ?K"
        from file_key_full_digest [OF this] obtain c where
          c: "disk f = Some (Readable c)" "sha256 c = sha256 content"
          by blast
        from nc [OF listed [OF f] c] c(1) show "?Q f" by simp
      next
        assume "?Q f"
        then show "file_key disk sha256 1 f = Some ?K" by (rule q1)
      qed
    qed
    finally have G2: "bucket ?K ?T2 = ?D"
      using A1 by simp
    from len have ne: "?D \<noteq> []" by auto
    with G2 group_of_bucket [of ?K ?T2] have grp: "(?K, ?D) \<in> set ?T2" by simp
    have tr: "trace st' = trace st @
        ([Call 0 (source_table st) (destination_table st)] @
         map (\<lambda>f. GetHash f 0) (handles pot0) @
         [Call 1 ?T1 (destination_table st1)] @
         map (\<lambda>f. GetHash f 1) (handles pot1)) @
        [Call 2 ?T2 (destination_table st2)]"
      using level2(8) rehash_level(5) [OF level2(3)] rehash_level(5) [OF level2(6)]
      by simp
    have dest: "bucket label (destination_table st') =
        bucket label (destination_table st2) @ terminal_additions label ?T2" for label
      using classify_groups_bucket [OF level2(7), of label] level2(8) by simp
    have "hd ?D \<in> set (bucket (extension_label (hd ?D)) (destination_table st'))"
      using terminal_additions_first [OF grp ne] by (simp add: dest)
    moreover have "set (tl ?D) \<subseteq> set (bucket ?dup (destination_table st'))"
      using terminal_additions_others [OF grp] by (auto simp: dest)
    ultimately show ?thesis
      using tr grp by blast
  qed
qed

theorem deterministic_survivor_witness:
  "find_duplicate_files
     ((scenario_disk ''0123456789'' ''9876543210'' ''01234567890123456789'')
        (''e.txt'' \<mapsto> Readable ''zzz''))
     id scenario_state 0 = (Returned, scenario_final) \<and>
   (\<exists>tr tbl dest.
      trace scenario_final = trace scenario_state @ tr @ [Call 2 tbl dest] \<and>
      (Digest ''0123456789'', [''a.txt'', ''b.txt'']) \<in> set tbl) \<and>
   ''a.txt'' \<in> set (bucket ''txt-files'' (destination_table scenario_final)) \<and>
   ''b.txt'' \<in> set (bucket ''duplicate-files'' (destination_table scenario_final))"
proof -
  let ?disk = "scenario_disk ''0123456789'' ''9876543210'' ''01234567890123456789''"
  let ?disk' = "?disk(''e.txt'' \<mapsto> Readable ''zzz'')"
  note t = deterministic_survivor [of scenario_state ?disk ?disk' id scenario_final "''0123456789''"]
  have D: "same_content ?disk ''0123456789'' (source_table scenario_state) = [''a.txt'', ''b.txt'']"
    by (simp add: same_content_def scenario_state_def scenario_disk_def)
  have agree: "\<forall>f \<in> set (handles (source_table scenario_state)). ?disk f = ?disk' f"
    by (simp add: scenario_state_def)
  have h: "find_duplicate_files ?disk id scenario_state 0 = (Returned, scenario_final) \<and>
      distinct (map fst (source_table scenario_state)) \<and>
      (\<forall>f c. f \<in> set (handles (source_table scenario_state)) \<and> ?disk f = Some (Readable c) \<and>
         id c = id ''0123456789'' \<longrightarrow> c = ''0123456789'') \<and>
      1 < length (same_content ?disk ''0123456789'' (source_table scenario_state))"
    unfolding D by (simp add: scenario_run) (simp add: scenario_state_def)
  have l: "extension_label ''a.txt'' = ''txt-files''"
    by (simp add: run_simps)
  from t agree have one: "find_duplicate_files ?disk' id scenario_state 0 = (Returned, scenario_final)"
    by (simp only: scenario_run)
  from t h have "\<exists>tr tbl dest.
      trace scenario_final = trace scenario_state @ tr @ [Call 2 tbl dest] \<and>
      (Digest (id ''0123456789''), same_content ?disk ''0123456789'' (source_table scenario_state))
        \<in> set tbl \<and>
      hd (same_content ?disk ''0123456789'' (source_table scenario_state)) \<in>
        set (bucket (extension_label (hd (same_content ?disk ''0123456789'' (source_table scenario_state))))
              (destination_table scenario_final)) \<and>
      set (tl (same_content ?disk ''0123456789'' (source_table scenario_state))) \<subseteq>
        set (bucket ''duplicate-files'' (destination_table scenario_final))"
    by blast
  then have two: "(\<exists>tr tbl dest.
      trace scenario_final = trace scenario_state @ tr @ [Call 2 tbl dest] \<and>
      (Digest ''0123456789'', [''a.txt'', ''b.txt'']) \<in> set tbl) \<and>
    ''a.txt'' \<in> set (bucket ''txt-files'' (destination_table scenario_final)) \<and>
    ''b.txt'' \<in> set (bucket ''duplicate-files'' (destination_table scenario_final))"
    unfolding D by (simp add: l) blast
  from one two show ?thesis by (rule conjI)
qed

section \<open>Unreadable files\<close>

lemma file_key_unreadable:
  "disk file = None \<or> disk file = Some Unreadable \<Longrightarrow> iteration = 0 \<or> iteration = 1 \<Longrightarrow>
   file_key disk sha256 iteration file = None"
  by (auto simp: file_key_def get_hash_def)

text \<open>
  Claim C6, as the code has it. When a file of a group of several files cannot be opened
  or read, \<open>find_duplicate_files\<close> (at a refining level) raises the exception
  \<open>Unable to read current file\<close>, which leaves the function: no further level is
  entered. The destination table is mutated in place and is not restored: each of its
  buckets holds what it held before and, after that, the files that stood alone in their
  group, which the first loop had classified before the rehash began.
\<close>

theorem unreadable_file_aborts:
  assumes "iteration = 0 \<or> iteration = 1"
    and "file \<in> set (ambiguous (source_table st))"
    and "disk file = None \<or> disk file = Some Unreadable"
  shows "fst (find_duplicate_files disk sha256 st iteration) =
           Raised (Exception ''Unable to read current file'') \<and>
         (\<forall>label. bucket label (destination_table (snd (find_duplicate_files disk sha256 st iteration))) =
            bucket label (destination_table st) @
            filter (\<lambda>f. extension_label f = label) (singletons (source_table st))) \<and>
         calls (trace (snd (find_duplicate_files disk sha256 st iteration))) =
           calls (trace st) @ [iteration]"
proof -
  from assms(1) have "iteration \<noteq> 2" by auto
  then show ?thesis
  proof (cases rule: find_duplicate_files_level_cases [of iteration st disk sha256])
    case (stop dest)
    from classify_singletons_set_handles [OF stop(1)] assms(2) show ?thesis by simp
  next
    case (raise dest pot e st1)
    from rehash_groups_Raised [OF raise(3) assms(1)]
    have "e = Exception ''Unable to read current file''" .
    moreover have "bucket label (destination_table st1) =
        bucket label (destination_table st) @
        filter (\<lambda>f. extension_label f = label) (singletons (source_table st))" for label
      using destination_table_rehash_groups [OF raise(3)]
        classify_singletons_bucket [OF raise(1), of label]
      by simp
    moreover have "calls (trace st1) = calls (trace st) @ [iteration]"
      using rehash_groups_calls [OF raise(3)] by simp
    ultimately show ?thesis
      using raise(4) by simp
  next
    case (recurse dest pot st1)
    from classify_singletons_set_handles [OF recurse(1)] assms(2)
    have "file \<in> set (handles pot)" by simp
    from rehash_groups_Returned_keys [OF recurse(3) this]
      file_key_unreadable [of disk "file" iteration sha256] assms(3) assms(1)
    show ?thesis by simp
  qed
qed

theorem unreadable_file_aborts_witness:
  "fst (find_duplicate_files broken_disk id scenario_state 0) =
     Raised (Exception ''Unable to read current file'') \<and>
   bucket ''log-files'' (destination_table (snd (find_duplicate_files broken_disk id scenario_state 0))) =
     [''d.log''] \<and>
   calls (trace (snd (find_duplicate_files broken_disk id scenario_state 0))) = [0]"
proof -
  have h: "(0::int) = 0 \<or> (0::int) = 1"
    "''b.txt'' \<in> set (ambiguous (source_table scenario_state))"
    "broken_disk ''b.txt'' = None \<or> broken_disk ''b.txt'' = Some Unreadable"
    by (simp_all add: scenario_state_def broken_disk_def)
  have l: "filter (\<lambda>f. extension_label f = ''log-files'') (singletons (source_table scenario_state)) =
      [''d.log'']"
    by (simp add: scenario_state_def run_simps)
  from unreadable_file_aborts [of 0 "''b.txt''" scenario_state broken_disk id] h l
  show ?thesis
    by (simp add: scenario_state_def bucket_def)
qed

text \<open>
  The claim as stated fails: in the scenario with \<open>b.txt\<close> unreadable, the run is aborted
  and the destination table, empty before, holds \<open>d.log\<close>.
\<close>

theorem error_atomicity_counterexample:
  "find_duplicate_files broken_disk id scenario_state 0 =
     (Raised (Exception ''Unable to read current file''),
      \<lparr>source_table = [(Digest ''0123456789'', [''a.txt''])],
       destination_table = [(''log-files'', [''d.log''])],
       trace = [Call 0 [(Size 10, [''a.txt'', ''b.txt'', ''c.txt'']), (Size 20, [''d.log''])] [],
                GetHash ''a.txt'' 0]\<rparr>) \<and>
   destination_table scenario_state = [] \<and>
   [(''log-files'', [''d.log''])] \<noteq> []"
  by (simp add: run_simps broken_disk_def scenario_state_def)

section \<open>Classification labelling\<close>

text \<open>
  Claim C7. \<open>add_unique_file_to_table\<close> appends the handle to the list under a label
  derived from the file name. For a name \<open>stem.e\<close> in which \<open>e\<close> has no dot (so the dot
  before \<open>e\<close> is the final one), no part is a directory separator and \<open>stem\<close> is not made
  of dots alone, the label is \<open>e\<close>, the text after the final dot, followed by
  \<open>-files\<close>. A name with no dot has no extension and goes under the fixed label
  \<open>no-extension-files\<close>; \<open>README\<close> is such a name. A name in which only dots come
  before the final dot (a hidden file such as \<open>.bashrc\<close>, which \<open>main\<close> does not pass
  on) has no extension for \<open>os.path.splitext\<close> and goes under the same fixed label.
\<close>

theorem classification_labelling:
  "(CHR ''.'' \<notin> set e \<and> CHR ''/'' \<notin> set (stem @ e) \<and> (\<exists>c \<in> set stem. c \<noteq> CHR ''.'') \<longrightarrow>
      add_unique_file_to_table (stem @ ''.'' @ e) dest =
        append_at (e @ ''-files'') (stem @ ''.'' @ e) dest \<and>
      bucket (e @ ''-files'') (add_unique_file_to_table (stem @ ''.'' @ e) dest) =
        bucket (e @ ''-files'') dest @ [stem @ ''.'' @ e]) \<and>
   (CHR ''.'' \<notin> set file \<longrightarrow>
      add_unique_file_to_table file dest = append_at ''no-extension-files'' file dest \<and>
      bucket ''no-extension-files'' (add_unique_file_to_table file dest) =
        bucket ''no-extension-files'' dest @ [file]) \<and>
   add_unique_file_to_table ''README'' dest = append_at ''no-extension-files'' ''README'' dest \<and>
   (CHR ''.'' \<notin> set e \<and> CHR ''/'' \<notin> set (stem @ e) \<and> (\<forall>c \<in> set stem. c = CHR ''.'') \<longrightarrow>
      add_unique_file_to_table (stem @ ''.'' @ e) dest =
        append_at ''no-extension-files'' (stem @ ''.'' @ e) dest)"
proof (intro conjI impI)
  assume a: "CHR ''.'' \<notin> set e \<and> CHR ''/'' \<notin> set (stem @ e) \<and> (\<exists>c \<in> set stem. c \<noteq> CHR ''.'')"
  then have l: "extension_label (stem @ ''.'' @ e) = e @ ''-files''"
    using extension_label_extension [of e stem] by simp
  then show "add_unique_file_to_table (stem @ ''.'' @ e) dest =
        append_at (e @ ''-files'') (stem @ ''.'' @ e) dest"
    by (simp only: add_unique_file_to_table_def)
  then show "bucket (e @ ''-files'') (add_unique_file_to_table (stem @ ''.'' @ e) dest) =
        bucket (e @ ''-files'') dest @ [stem @ ''.'' @ e]"
    by (simp add: bucket_append_at)
next
  assume "CHR ''.'' \<notin> set file"
  then have "extension_label file = ''no-extension-files''"
    by (rule extension_label_no_dot)
  then show "add_unique_file_to_table file dest = append_at ''no-extension-files'' file dest"
    by (simp only: add_unique_file_to_table_def)
  then show "bucket ''no-extension-files'' (add_unique_file_to_table file dest) =
        bucket ''no-extension-files'' dest @ [file]"
    by (simp add: bucket_append_at)
next
  have "extension_label ''README'' = ''no-extension-files''"
    by (rule extension_label_no_dot) simp
  then show "add_unique_file_to_table ''README'' dest = append_at ''no-extension-files'' ''README'' dest"
    by (simp only: add_unique_file_to_table_def)
next
  assume "CHR ''.'' \<notin> set e \<and> CHR ''/'' \<notin> set (stem @ e) \<and> (\<forall>c \<in> set stem. c = CHR ''.'')"
  then have "extension_label (stem @ ''.'' @ e) = ''no-extension-files''"
    using extension_label_leading_dots [of e stem] by simp
  then show "add_unique_file_to_table (stem @ ''.'' @ e) dest =
        append_at ''no-extension-files'' (stem @ ''.'' @ e) dest"
    by (simp only: add_unique_file_to_table_def)
qed

theorem classification_labelling_witness:
  "add_unique_file_to_table ''notes.tar.gz'' [(''gz-files'', [''a.gz''])] =
     [(''gz-files'', [''a.gz'', ''notes.tar.gz''])] \<and>
   add_unique_file_to_table ''Makefile'' [(''gz-files'', [''a.gz''])] =
     [(''gz-files'', [''a.gz'']), (''no-extension-files'', [''Makefile''])] \<and>
   add_unique_file_to_table ''.bashrc'' [(''gz-files'', [''a.gz''])] =
     [(''gz-files'', [''a.gz'']), (''no-extension-files'', [''.bashrc''])]"
proof -
  have h1: "CHR ''.'' \<notin> set ''gz'' \<and> CHR ''/'' \<notin> set (''notes.tar'' @ ''gz'') \<and>
      (\<exists>c \<in> set ''notes.tar''. c \<noteq> CHR ''.'')"
    by simp
  have h2: "CHR ''.'' \<notin> set ''Makefile''"
    by simp
  have h3: "CHR ''.'' \<notin> set ''bashrc'' \<and> CHR ''/'' \<notin> set ([] @ ''bashrc'') \<and>
      (\<forall>c \<in> set []. c = CHR ''.'')"
    by simp
  from classification_labelling [of "''gz''" "''notes.tar''" "[(''gz-files'', [''a.gz''])]" "''Makefile''"]
    h1 h2
  have first: "add_unique_file_to_table ''notes.tar.gz'' [(''gz-files'', [''a.gz''])] =
     [(''gz-files'', [''a.gz'', ''notes.tar.gz''])] \<and>
   add_unique_file_to_table ''Makefile'' [(''gz-files'', [''a.gz''])] =
     [(''gz-files'', [''a.gz'']), (''no-extension-files'', [''Makefile''])]"
    by (simp add: append_at_def)
  from classification_labelling [of "''bashrc''" "[]" "[(''gz-files'', [''a.gz''])]" "''Makefile''"]
    h3
  have "add_unique_file_to_table ''.bashrc'' [(''gz-files'', [''a.gz''])] =
     [(''gz-files'', [''a.gz'']), (''no-extension-files'', [''.bashrc''])]"
    by (simp add: append_at_def)
  with first show ?thesis by simp
qed

section \<open>The scenario of the specification\<close>

text \<open>
  Claim C8. The directory holds \<open>a.txt\<close> and \<open>b.txt\<close> (10 bytes, content \<open>X\<close>), \<open>c.txt\<close>
  (10 bytes, content \<open>Y\<close>, whose digest differs from that of \<open>X\<close>) and \<open>d.log\<close> (20
  bytes, content \<open>Z\<close>); the size table lists \<open>a.txt\<close> before \<open>b.txt\<close>, in any of the six
  orders that allows. Then \<open>find_duplicate_files\<close> returns with \<open>txt-files\<close> holding
  exactly \<open>a.txt\<close> and \<open>c.txt\<close>, \<open>log-files\<close> exactly \<open>d.log\<close> and \<open>duplicate-files\<close>
  exactly \<open>b.txt\<close>, and with no other bucket. \<open>d.log\<close> is never hashed and is already
  classified when the second level is entered; \<open>c.txt\<close> is hashed at the first rehash
  only (the partial digest) and is classified when the third level is entered.
\<close>

theorem scenario_classification:
  assumes "length X = 10" and "length Y = 10" and "length Z = 20"
    and "sha256 X \<noteq> sha256 Y"
    and "src \<in> set scenario_tables"
  shows "\<exists>st'. find_duplicate_files (scenario_disk X Y Z) sha256
            \<lparr>source_table = src, destination_table = [], trace = []\<rparr> 0 = (Returned, st') \<and>
          scenario_expected st'"
  using assms(5,1,2,4)
  apply (simp add: scenario_tables_def)
  apply (elim disjE)
       apply (simp_all add: run_simps scenario_disk_def scenario_expected_def bucket_def handles_def)
       apply auto
  done

theorem scenario_classification_witness:
  "length ''0123456789'' = 10 \<and> length ''9876543210'' = 10 \<and>
   length ''01234567890123456789'' = 20 \<and> id ''0123456789'' \<noteq> id ''9876543210'' \<and>
   source_table scenario_state \<in> set scenario_tables \<and>
   scenario_expected scenario_final"
proof -
  have h: "length ''0123456789'' = 10" "length ''9876543210'' = 10"
    "length ''01234567890123456789'' = 20" "id ''0123456789'' \<noteq> id ''9876543210''"
    "source_table scenario_state \<in> set scenario_tables"
    by (simp_all add: scenario_state_def scenario_tables_def)
  have s: "\<lparr>source_table = source_table scenario_state, destination_table = [], trace = []\<rparr> =
      scenario_state"
    by (simp add: scenario_state_def)
  from scenario_classification [OF h] obtain st' where
    "find_duplicate_files (scenario_disk ''0123456789'' ''9876543210'' ''01234567890123456789'') id
       \<lparr>source_table = source_table scenario_state, destination_table = [], trace = []\<rparr> 0 =
       (Returned, st')"
    and e: "scenario_expected st'"
    by blast
  then have "(Returned, scenario_final) = (Returned, st')"
    unfolding s scenario_run by blast
  then have "st' = scenario_final"
    by blast
  with e h show ?thesis by blast
qed

section \<open>Pooling across sizes\<close>

text \<open>
  What a run that returns has done with two files of different size groups whose contents
  agree on the first 1024 bytes.
\<close>

lemma pooling_of_returned_run:
  assumes "find_duplicate_files disk sha256 st 0 = (Returned, st')"
    and "(Size n, fs) \<in> set (source_table st)" and "(Size m, gs) \<in> set (source_table st)"
    and "n \<noteq> m"
    and "a \<in> set fs" and "b \<in> set gs" and "1 < length fs" and "1 < length gs"
    and "disk a = Some (Readable ca)" and "disk b = Some (Readable cb)"
    and "take byte_chunk ca = take byte_chunk cb"
  shows "(\<exists>tr tbl dest tr' grp.
            trace st' = trace st @ tr @ Call 1 tbl dest # tr' \<and>
            (Digest (sha256 (take byte_chunk ca)), grp) \<in> set tbl \<and>
            a \<in> set grp \<and> b \<in> set grp) \<and>
         (sha256 ca \<noteq> sha256 cb \<longrightarrow>
            (\<exists>tr tbl dest ga gb.
               trace st' = trace st @ tr @ [Call 2 tbl dest] \<and>
               (Digest (sha256 ca), ga) \<in> set tbl \<and> (Digest (sha256 cb), gb) \<in> set tbl \<and>
               a \<in> set ga \<and> b \<in> set gb \<and> a \<notin> set gb \<and> b \<notin> set ga \<and>
               (\<forall>key grp. (key, grp) \<in> set tbl \<longrightarrow>
                  (\<forall>f \<in> set grp. file_key disk sha256 1 f = Some key) \<and>
                  hd grp \<in> set (bucket (extension_label (hd grp)) (destination_table st')) \<and>
                  set (tl grp) \<subseteq> set (bucket ''duplicate-files'' (destination_table st')))))"
proof -
  let ?dup = "''duplicate-files''"
  let ?P = "Digest (sha256 (take byte_chunk ca))"
  let ?Ka = "Digest (sha256 ca)"
  let ?Kb = "Digest (sha256 cb)"
  from assms(2,5,7) have amb_a: "a \<in> set (ambiguous (source_table st))"
    by (auto intro: member_ambiguous)
  from assms(3,6,8) have amb_b: "b \<in> set (ambiguous (source_table st))"
    by (auto intro: member_ambiguous)
  note ka = file_key_readable [of disk a ca sha256, OF assms(9)]
  note kb = file_key_readable [of disk b cb sha256, OF assms(10)]
  from kb assms(11) have kb0: "file_key disk sha256 0 b = Some ?P" by simp
  from assms(1) show ?thesis
  proof (cases rule: returned_run_cases)
    case (level0 dest0)
    from classify_singletons_set_handles [OF level0(1)] amb_a show ?thesis by simp
  next
    case (level1 dest0 pot0 st1 dest1)
    let ?G = "bucket ?P (source_table st1)"
    from level_advance [OF level1(1) level1(3) amb_a] ka
    have a1: "a \<in> set ?G" "(?P, ?G) \<in> set (source_table st1)"
      by simp_all
    from level_advance [OF level1(1) level1(3) amb_b kb0]
    have b1: "b \<in> set ?G" by simp
    have tr: "trace st' = trace st @
        ([Call 0 (source_table st) (destination_table st)] @
         map (\<lambda>f. GetHash f 0) (handles pot0)) @
        Call 1 (source_table st1) (destination_table st1) # []"
      using level1(5) rehash_level(5) [OF level1(3)] by simp
    with a1 b1 have first: "\<exists>tr tbl dest tr' grp.
        trace st' = trace st @ tr @ Call 1 tbl dest # tr' \<and>
        (?P, grp) \<in> set tbl \<and> a \<in> set grp \<and> b \<in> set grp"
      by blast
    have "sha256 ca = sha256 cb"
    proof (rule ccontr)
      assume "sha256 ca \<noteq> sha256 cb"
      with assms(9,10) have "a \<noteq> b" by auto
      with a1 b1 have "a \<in> set (ambiguous (source_table st1))"
        by (auto intro: member_ambiguous dest: two_members)
      with classify_singletons_set_handles [OF level1(4)] show False by simp
    qed
    with first show ?thesis by simp
  next
    case (level2 dest0 pot0 st1 dest1 pot1 st2 dest2)
    let ?G = "bucket ?P (source_table st1)"
    from level_advance [OF level2(1) level2(3) amb_a] ka
    have a1: "a \<in> set ?G" "(?P, ?G) \<in> set (source_table st1)"
      by simp_all
    from level_advance [OF level2(1) level2(3) amb_b kb0]
    have b1: "b \<in> set ?G" by simp
    have tr1: "trace st' = trace st @
        ([Call 0 (source_table st) (destination_table st)] @
         map (\<lambda>f. GetHash f 0) (handles pot0)) @
        Call 1 (source_table st1) (destination_table st1) #
        (map (\<lambda>f. GetHash f 1) (handles pot1) @
         [Call 2 (source_table st2) (destination_table st2)])"
      using level2(8) rehash_level(5) [OF level2(3)] rehash_level(5) [OF level2(6)] by simp
    with a1 b1 have first: "\<exists>tr tbl dest tr' grp.
        trace st' = trace st @ tr @ Call 1 tbl dest # tr' \<and>
        (?P, grp) \<in> set tbl \<and> a \<in> set grp \<and> b \<in> set grp"
      by blast
    have second: "\<exists>tr tbl dest ga gb.
        trace st' = trace st @ tr @ [Call 2 tbl dest] \<and>
        (?Ka, ga) \<in> set tbl \<and> (?Kb, gb) \<in> set tbl \<and>
        a \<in> set ga \<and> b \<in> set gb \<and> a \<notin> set gb \<and> b \<notin> set ga \<and>
        (\<forall>key grp. (key, grp) \<in> set tbl \<longrightarrow>
           (\<forall>f \<in> set grp. file_key disk sha256 1 f = Some key) \<and>
           hd grp \<in> set (bucket (extension_label (hd grp)) (destination_table st')) \<and>
           set (tl grp) \<subseteq> set (bucket ?dup (destination_table st')))"
      if differ: "sha256 ca \<noteq> sha256 cb"
    proof -
      from differ assms(9,10) have "a \<noteq> b" by auto
      with a1 b1 have amb1:
        "a \<in> set (ambiguous (source_table st1))" "b \<in> set (ambiguous (source_table st1))"
        by (auto intro: member_ambiguous dest: two_members)
      let ?T = "source_table st2"
      from level_advance [OF level2(4) level2(6) amb1(1)] ka
      have a2: "a \<in> set (bucket ?Ka ?T)" "(?Ka, bucket ?Ka ?T) \<in> set ?T"
        by simp_all
      from level_advance [OF level2(4) level2(6) amb1(2)] kb
      have b2: "b \<in> set (bucket ?Kb ?T)" "(?Kb, bucket ?Kb ?T) \<in> set ?T"
        by simp_all
      have uniform: "file_key disk sha256 1 f = Some key"
        if "(key, grp) \<in> set ?T" "f \<in> set grp" for key grp f
        using rehash_level_group [OF level2(6) that(1)] that(2) by simp
      from uniform [OF b2(2)] ka differ have "a \<notin> set (bucket ?Kb ?T)" by auto
      moreover from uniform [OF a2(2)] kb differ have "b \<notin> set (bucket ?Ka ?T)" by auto
      moreover have tr2: "trace st' = trace st @
          ([Call 0 (source_table st) (destination_table st)] @
           map (\<lambda>f. GetHash f 0) (handles pot0) @
           [Call 1 (source_table st1) (destination_table st1)] @
           map (\<lambda>f. GetHash f 1) (handles pot1)) @
          [Call 2 ?T (destination_table st2)]"
        using tr1 by simp
      moreover have dest: "bucket label (destination_table st') =
          bucket label (destination_table st2) @ terminal_additions label ?T" for label
        using classify_groups_bucket [OF level2(7), of label] level2(8) by simp
      have "hd grp \<in> set (bucket (extension_label (hd grp)) (destination_table st'))"
        if "(key, grp) \<in> set ?T" for key grp
      proof -
        from rehash_level(4) [OF level2(6)] that have "grp \<noteq> []" by auto
        from terminal_additions_first [OF that this] show ?thesis by (simp add: dest)
      qed
      moreover have "set (tl grp) \<subseteq> set (bucket ?dup (destination_table st'))"
        if "(key, grp) \<in> set ?T" for key grp
        using terminal_additions_others [OF that] by (auto simp: dest)
      ultimately show ?thesis
        using a2 b2 uniform by blast
    qed
    from first second show ?thesis by blast
  qed
qed

lemma pooled_contents:
  "take byte_chunk pooled_a = replicate 1024 (CHR ''x'')"
  "take byte_chunk pooled_b = replicate 1024 (CHR ''x'')"
  "pooled_a \<noteq> pooled_b" "pooled_b \<noteq> pooled_a"
  by (simp_all add: pooled_a_def pooled_b_def byte_chunk_def)

text \<open>
  Claim C9. Let every file that stands in a group of several files be readable, and let
  \<open>a\<close> and \<open>b\<close> stand in two groups of different size keys, each of several files, with
  contents that agree on the first 1024 bytes. Then the run returns. The table with
  which iteration 1 is entered is keyed by the digest alone, and in it \<open>a\<close> and \<open>b\<close>
  stand in one group. When their full digests differ, iteration 2 is entered with a table
  in which \<open>a\<close> and \<open>b\<close> stand in different groups; every group of that table holds
  only files with the full digest that is its key, its first member ends in the bucket
  of its extension label, and its other members end in \<open>duplicate-files\<close>. So no file
  is marked a duplicate of a file with another full digest.
\<close>

theorem cross_size_merging:
  assumes "\<forall>f \<in> set (ambiguous (source_table st)). \<exists>c. disk f = Some (Readable c)"
    and "(Size n, fs) \<in> set (source_table st)" and "(Size m, gs) \<in> set (source_table st)"
    and "n \<noteq> m"
    and "a \<in> set fs" and "b \<in> set gs" and "1 < length fs" and "1 < length gs"
    and "disk a = Some (Readable ca)" and "disk b = Some (Readable cb)"
    and "take byte_chunk ca = take byte_chunk cb"
  shows "\<exists>st'. find_duplicate_files disk sha256 st 0 = (Returned, st') \<and>
         (\<exists>tr tbl dest tr' grp.
            trace st' = trace st @ tr @ Call 1 tbl dest # tr' \<and>
            (Digest (sha256 (take byte_chunk ca)), grp) \<in> set tbl \<and>
            a \<in> set grp \<and> b \<in> set grp) \<and>
         (sha256 ca \<noteq> sha256 cb \<longrightarrow>
            (\<exists>tr tbl dest ga gb.
               trace st' = trace st @ tr @ [Call 2 tbl dest] \<and>
               (Digest (sha256 ca), ga) \<in> set tbl \<and> (Digest (sha256 cb), gb) \<in> set tbl \<and>
               a \<in> set ga \<and> b \<in> set gb \<and> a \<notin> set gb \<and> b \<notin> set ga \<and>
               (\<forall>key grp. (key, grp) \<in> set tbl \<longrightarrow>
                  (\<forall>f \<in> set grp. file_key disk sha256 1 f = Some key) \<and>
                  hd grp \<in> set (bucket (extension_label (hd grp)) (destination_table st')) \<and>
                  set (tl grp) \<subseteq> set (bucket ''duplicate-files'' (destination_table st')))))"
proof -
  let ?st' = "snd (find_duplicate_files disk sha256 st 0)"
  from readable_run_returns [OF assms(1), of sha256]
  have run: "find_duplicate_files disk sha256 st 0 = (Returned, ?st')"
    by (simp add: prod_eq_iff)
  from pooling_of_returned_run [OF run assms(2-11)] run
  show ?thesis
    by (intro exI [of _ ?st'] conjI) simp_all
qed

theorem cross_size_merging_witness:
  "fst (find_duplicate_files pooled_disk id pooled_state 0) = Returned \<and>
   (\<exists>tr tbl dest tr' grp.
      trace (snd (find_duplicate_files pooled_disk id pooled_state 0)) =
        trace pooled_state @ tr @ Call 1 tbl dest # tr' \<and>
      (Digest (take byte_chunk pooled_a), grp) \<in> set tbl \<and>
      ''a.bin'' \<in> set grp \<and> ''b.bin'' \<in> set grp) \<and>
   (\<exists>tr tbl dest ga gb.
      trace (snd (find_duplicate_files pooled_disk id pooled_state 0)) =
        trace pooled_state @ tr @ [Call 2 tbl dest] \<and>
      (Digest pooled_a, ga) \<in> set tbl \<and> (Digest pooled_b, gb) \<in> set tbl \<and>
      ''a.bin'' \<in> set ga \<and> ''b.bin'' \<in> set gb \<and> ''a.bin'' \<notin> set gb \<and> ''b.bin'' \<notin> set ga)"
proof -
  have readable: "\<forall>f \<in> set (ambiguous (source_table pooled_state)).
      \<exists>c. pooled_disk f = Some (Readable c)"
    by (simp add: pooled_state_def pooled_disk_def)
  have h: "(Size 1025, [''a.bin'', ''a2.bin'']) \<in> set (source_table pooled_state)"
    "(Size 1026, [''b.bin'', ''b2.bin'']) \<in> set (source_table pooled_state)"
    "(1025::int) \<noteq> 1026"
    "''a.bin'' \<in> set [''a.bin'', ''a2.bin'']" "''b.bin'' \<in> set [''b.bin'', ''b2.bin'']"
    "1 < length [''a.bin'', ''a2.bin'']" "1 < length [''b.bin'', ''b2.bin'']"
    "pooled_disk ''a.bin'' = Some (Readable pooled_a)"
    "pooled_disk ''b.bin'' = Some (Readable pooled_b)"
    "take byte_chunk pooled_a = take byte_chunk pooled_b"
    by (simp_all add: pooled_state_def pooled_disk_def pooled_contents)
  have differ: "id pooled_a \<noteq> id pooled_b"
    by (simp add: pooled_contents)
  from cross_size_merging [OF readable h, of id] obtain st' where
    run: "find_duplicate_files pooled_disk id pooled_state 0 = (Returned, st')"
    and first: "\<exists>tr tbl dest tr' grp.
      trace st' = trace pooled_state @ tr @ Call 1 tbl dest # tr' \<and>
      (Digest (id (take byte_chunk pooled_a)), grp) \<in> set tbl \<and>
      ''a.bin'' \<in> set grp \<and> ''b.bin'' \<in> set grp"
    and second: "id pooled_a \<noteq> id pooled_b \<longrightarrow>
      (\<exists>tr tbl dest ga gb.
         trace st' = trace pooled_state @ tr @ [Call 2 tbl dest] \<and>
         (Digest (id pooled_a), ga) \<in> set tbl \<and> (Digest (id pooled_b), gb) \<in> set tbl \<and>
         ''a.bin'' \<in> set ga \<and> ''b.bin'' \<in> set gb \<and> ''a.bin'' \<notin> set gb \<and> ''b.bin'' \<notin> set ga \<and>
         (\<forall>key grp. (key, grp) \<in> set tbl \<longrightarrow>
            (\<forall>f \<in> set grp. file_key pooled_disk id 1 f = Some key) \<and>
            hd grp \<in> set (bucket (extension_label (hd grp)) (destination_table st')) \<and>
            set (tl grp) \<subseteq> set (bucket ''duplicate-files'' (destination_table st'))))"
    by blast
  from run have st': "st' = snd (find_duplicate_files pooled_disk id pooled_state 0)"
    and ret: "fst (find_duplicate_files pooled_disk id pooled_state 0) = Returned"
    by simp_all
  from first have one: "\<exists>tr tbl dest tr' grp.
      trace (snd (find_duplicate_files pooled_disk id pooled_state 0)) =
        trace pooled_state @ tr @ Call 1 tbl dest # tr' \<and>
      (Digest (take byte_chunk pooled_a), grp) \<in> set tbl \<and>
      ''a.bin'' \<in> set grp \<and> ''b.bin'' \<in> set grp"
    unfolding st' by simp
  from second differ obtain tr tbl dest ga gb where
    "trace st' = trace pooled_state @ tr @ [Call 2 tbl dest]"
    "(Digest (id pooled_a), ga) \<in> set tbl" "(Digest (id pooled_b), gb) \<in> set tbl"
    "''a.bin'' \<in> set ga" "''b.bin'' \<in> set gb" "''a.bin'' \<notin> set gb" "''b.bin'' \<notin> set ga"
    by blast
  then have two: "\<exists>tr tbl dest ga gb.
      trace (snd (find_duplicate_files pooled_disk id pooled_state 0)) =
        trace pooled_state @ tr @ [Call 2 tbl dest] \<and>
      (Digest pooled_a, ga) \<in> set tbl \<and> (Digest pooled_b, gb) \<in> set tbl \<and>
      ''a.bin'' \<in> set ga \<and> ''b.bin'' \<in> set gb \<and> ''a.bin'' \<notin> set gb \<and> ''b.bin'' \<notin> set ga"
    unfolding st' by auto
  from ret one two show ?thesis by blast
qed

section \<open>The error branch of \<open>get_hash\<close>\<close>

text \<open>
  Claim C10. In a run of \<open>find_duplicate_files\<close> entered with iteration 0, every call
  of \<open>get_hash\<close> is made with iteration 0 or 1, and the run never ends with the
  exception \<open>Error encountered in get_hash()\<close> that \<open>get_hash\<close> raises for another
  iteration: the branch is not reached.
\<close>

theorem get_hash_error_unreachable:
  "set (map snd (hashed (trace (snd (find_duplicate_files disk sha256 st 0))))) \<subseteq>
     set (map snd (hashed (trace st))) \<union> {0, 1} \<and>
   fst (find_duplicate_files disk sha256 st 0) \<noteq> Raised (Exception ''Error encountered in get_hash()'')"
proof
  let ?h = "set (map snd (hashed (trace st)))"
  from level_hashed [of 0 disk sha256 st] consider
      "set (map snd (hashed (trace (snd (find_duplicate_files disk sha256 st 0))))) \<subseteq> ?h \<union> {0}"
    | st1 where "find_duplicate_files disk sha256 st 0 = find_duplicate_files disk sha256 st1 1"
        "set (map snd (hashed (trace st1))) \<subseteq> ?h \<union> {0}"
    by auto
  then show "set (map snd (hashed (trace (snd (find_duplicate_files disk sha256 st 0))))) \<subseteq>
     ?h \<union> {0, 1}"
  proof cases
    case 1
    then show ?thesis by auto
  next
    case 2
    from level_hashed [of 1 disk sha256 st1] consider
        "set (map snd (hashed (trace (snd (find_duplicate_files disk sha256 st1 1))))) \<subseteq>
           set (map snd (hashed (trace st1))) \<union> {1}"
      | st2 where "find_duplicate_files disk sha256 st1 1 = find_duplicate_files disk sha256 st2 2"
          "set (map snd (hashed (trace st2))) \<subseteq> set (map snd (hashed (trace st1))) \<union> {1}"
      by auto
    then show ?thesis
    proof cases
      case 1
      with 2(2) have
        "set (map snd (hashed (trace (snd (find_duplicate_files disk sha256 st1 1))))) \<subseteq>
           ?h \<union> {0, 1}"
        by blast
      then show ?thesis by (simp only: 2(1))
    next
      case st2: 2
      have "hashed (trace (snd (find_duplicate_files disk sha256 st2 2))) = hashed (trace st2)"
        by (simp add: terminal_trace)
      with 2(2) st2(2) have
        "set (map snd (hashed (trace (snd (find_duplicate_files disk sha256 st2 2))))) \<subseteq>
           ?h \<union> {0, 1}"
        by (simp only:) blast
      then show ?thesis by (simp only: 2(1) st2(1))
    qed
  qed
next
  let ?bad = "Raised (Exception ''Error encountered in get_hash()'')"
  from level_outcome [of 0 disk sha256 st] consider
      "fst (find_duplicate_files disk sha256 st 0) = Returned"
    | "fst (find_duplicate_files disk sha256 st 0) = Raised (Exception ''Unable to read current file'')"
    | st1 where "find_duplicate_files disk sha256 st 0 = find_duplicate_files disk sha256 st1 1"
    by auto
  then show "fst (find_duplicate_files disk sha256 st 0) \<noteq> ?bad"
  proof cases
    case 1
    then show ?thesis by simp
  next
    case 2
    then show ?thesis by simp
  next
    case 3
    from level_outcome [of 1 disk sha256 st1] consider
        "fst (find_duplicate_files disk sha256 st1 1) = Returned"
      | "fst (find_duplicate_files disk sha256 st1 1) = Raised (Exception ''Unable to read current file'')"
      | st2 where "find_duplicate_files disk sha256 st1 1 = find_duplicate_files disk sha256 st2 2"
      by auto
    then show ?thesis
    proof cases
      case 1
      with 3 show ?thesis by simp
    next
      case 2
      with 3 show ?thesis by simp
    next
      case st2: 3
      from terminal_outcome [of disk sha256 st2] 3 st2 show ?thesis by auto
    qed
  qed
qed

end
